theory Spec2Isabelle
  imports Main "HOL-Library.Word" "HOL-Library.Multiset"
begin

section \<open>The counter components\<close>

text \<open>
  \<^verbatim>\<open>static uint64_t total = 0;\<close> is the only state of the counter examples
  (\<^verbatim>\<open>c-default/main.c\<close>, \<^verbatim>\<open>c-example-http/main.c\<close> and
  \<^verbatim>\<open>components-cpp/component-name/src/component.cpp\<close>). The state of a component
  instance is a record; \<^verbatim>\<open>uint64_t\<close> is a 64-bit word, whose \<open>+\<close> wraps around.
\<close>

type_synonym u8 = "8 word"
type_synonym u32 = "32 word"
type_synonym u64 = "64 word"

record component_state =
  total :: u64

text \<open>A freshly loaded instance: the static initialiser \<^verbatim>\<open>total = 0\<close>.\<close>

definition fresh_instance :: component_state where
  "fresh_instance = \<lparr>total = 0\<rparr>"

text \<open>
  \<^verbatim>\<open>void exports_pack_name_api_add(uint64_t value) { total += value; }\<close>
  \<^verbatim>\<open>uint64_t exports_pack_name_api_get() { return total; }\<close>
  (the same text in \<^verbatim>\<open>c-default/main.c\<close> and \<^verbatim>\<open>c-example-http/main.c\<close>).
  An export takes the state of the instance and returns the state it leaves; \<open>get\<close> also
  returns its result.
\<close>

definition exports_pack_name_api_add ::
  "u64 \<Rightarrow> 'a component_state_scheme \<Rightarrow> 'a component_state_scheme" where
  "exports_pack_name_api_add v s = s\<lparr>total := total s + v\<rparr>"

definition exports_pack_name_api_get ::
  "'a component_state_scheme \<Rightarrow> u64 \<times> 'a component_state_scheme" where
  "exports_pack_name_api_get s = (total s, s)"

text \<open>The two exports of \<^verbatim>\<open>component.cpp\<close>, over its own \<^verbatim>\<open>total\<close>.\<close>

definition exports_pack_name_exports_component_name_api_add ::
  "u64 \<Rightarrow> 'a component_state_scheme \<Rightarrow> 'a component_state_scheme" where
  "exports_pack_name_exports_component_name_api_add v s = s\<lparr>total := total s + v\<rparr>"

definition exports_component_name_exports_component_name_api_get ::
  "'a component_state_scheme \<Rightarrow> u64 \<times> 'a component_state_scheme" where
  "exports_component_name_exports_component_name_api_get s = (total s, s)"

text \<open>A sequence of calls \<open>add(v\<^sub>1), ..., add(v\<^sub>N)\<close>, in this order.\<close>

fun add_calls :: "u64 list \<Rightarrow> 'a component_state_scheme \<Rightarrow> 'a component_state_scheme" where
  "add_calls [] s = s"
| "add_calls (v # vs) s = add_calls vs (exports_pack_name_api_add v s)"

fun add_calls_cpp :: "u64 list \<Rightarrow> 'a component_state_scheme \<Rightarrow> 'a component_state_scheme" where
  "add_calls_cpp [] s = s"
| "add_calls_cpp (v # vs) s =
     add_calls_cpp vs (exports_pack_name_exports_component_name_api_add v s)"

section \<open>The HTTP example: \<^verbatim>\<open>exports_pack_name_api_send\<close>\<close>

text \<open>
  \<^verbatim>\<open>send\<close> talks to the host through the generated WASI bindings. The bindings are
  not part of the repository: a run of \<^verbatim>\<open>send\<close> is determined by what the host
  answers to each call, so the host is a record of answers. A call made once has one
  answer. \<^verbatim>\<open>future_incoming_response_get\<close> and \<^verbatim>\<open>blocking_read\<close> are called in
  loops: their answers are lists, the n-th element answering the n-th call. A loop that
  asks for more answers than the list holds has not returned within the host's script:
  the result is \<open>None\<close>.
\<close>

text \<open>The own handles, named after the variables of \<^verbatim>\<open>send\<close> that hold them.\<close>

datatype own_handle =
    Headers | Request | Out_body | Out_body_stream | Request_options
  | Future_response | Pollable nat | Response | Incoming_body | Incoming_body_stream

text \<open>The calls of the bindings that \<^verbatim>\<open>send\<close> makes.\<close>

datatype host_call =
    Fields_from_list
  | Constructor_outgoing_request
  | Set_method
  | Set_path_with_query
  | Set_scheme
  | Set_authority
  | Outgoing_request_body
  | Outgoing_body_write
  | Blocking_write_and_flush string
  | Outgoing_body_finish
  | Constructor_request_options
  | Set_connect_timeout
  | Set_first_byte_timeout
  | Set_between_bytes_timeout
  | Outgoing_handler_handle
  | Future_incoming_response_get
  | Future_incoming_response_subscribe
  | Poll
  | Incoming_response_status
  | Incoming_response_consume
  | Incoming_body_stream_of
  | Blocking_read
  | Drop_own own_handle

text \<open>
  \<^verbatim>\<open>wasi_http_types_method_future_incoming_response_get\<close> returns false while there is
  no result (\<open>No_result_yet\<close>); otherwise \<^verbatim>\<open>res\<close> holds
  \<^verbatim>\<open>!res.is_err && !res.val.ok.is_err\<close> (\<open>Got_response\<close>),
  \<^verbatim>\<open>!res.is_err && res.val.ok.is_err\<close> (\<open>Got_error_code\<close>) or
  \<^verbatim>\<open>res.is_err\<close> (\<open>Got_error\<close>).
\<close>

datatype future_result = No_result_yet | Got_response | Got_error_code | Got_error

text \<open>
  \<^verbatim>\<open>wasi_io_streams_method_input_stream_blocking_read\<close> returns true with a chunk, or
  false with \<^verbatim>\<open>stream_err\<close>, of which \<^verbatim>\<open>send\<close> reads the tag only.
\<close>

datatype read_result = Read_chunk string | Read_error u8

record host =
  fields_from_list :: bool
  set_method :: bool
  set_path_with_query :: bool
  set_scheme :: bool
  set_authority :: bool
  outgoing_request_body :: bool
  outgoing_body_write :: bool
  blocking_write_and_flush :: bool
  outgoing_body_finish :: bool
  set_connect_timeout :: bool
  set_first_byte_timeout :: bool
  set_between_bytes_timeout :: bool
  outgoing_handler_handle :: bool
  future_incoming_response_get :: "future_result list"
  incoming_response_consume :: bool
  incoming_body_stream :: bool
  blocking_read :: "read_result list"

text \<open>
  The state of the HTTP component: the counter, and the log of the calls made to the host,
  each with the own handles the host returned to \<^verbatim>\<open>send\<close> in that call.
\<close>

record http_state = component_state +
  calls :: "(host_call \<times> own_handle list) list"

definition host_call :: "host_call \<Rightarrow> own_handle list \<Rightarrow> http_state \<Rightarrow> http_state" where
  "host_call c returned s = s\<lparr>calls := calls s @ [(c, returned)]\<rparr>"

text \<open>The \<^verbatim>\<open>..._drop_own(h)\<close> functions.\<close>

definition drop_own :: "own_handle \<Rightarrow> http_state \<Rightarrow> http_state" where
  "drop_own h s = host_call (Drop_own h) [] s"

text \<open>The handle a fallible call stores in its out-parameter when it returns true.\<close>

definition on_success :: "bool \<Rightarrow> own_handle \<Rightarrow> own_handle list" where
  "on_success ok h = (if ok then [h] else [])"

text \<open>\<^verbatim>\<open>%llu\<close> of \<^verbatim>\<open>sprintf\<close>: the decimal digits of an unsigned number.\<close>

fun decimal :: "nat \<Rightarrow> string" where
  "decimal n =
     (if n < 10 then [''0123456789'' ! n]
      else decimal (n div 10) @ [''0123456789'' ! (n mod 10)])"

declare decimal.simps [simp del]

text \<open>
  \<^verbatim>\<open>sprintf((char*)body_data.ptr, "{ \"count\": %llu }", total);\<close>
\<close>

definition body_data :: "u64 \<Rightarrow> string" where
  "body_data t = ''{ \"count\": '' @ decimal (unat t) @ '' }''"

text \<open>
  The response-await loop (\<^verbatim>\<open>while (!got_response)\<close>). \<open>n\<close> counts the iterations
  and names the pollable of each. The result is \<open>Inl msg\<close> when \<^verbatim>\<open>send\<close> returns
  from inside the loop with \<^verbatim>\<open>ret\<close> set to \<open>msg\<close>, and \<open>Inr ()\<close> when the loop
  ends with \<^verbatim>\<open>response\<close> set.
\<close>

fun await_response ::
  "future_result list \<Rightarrow> nat \<Rightarrow> http_state \<Rightarrow> ((string + unit) \<times> http_state) option" where
  "await_response [] n s = None"
| "await_response (Got_response # rs) n s =
     Some (Inr (), host_call Future_incoming_response_get [Response] s)"
| "await_response (Got_error_code # rs) n s =
     Some (Inl ''Returned with error code'',
       drop_own Future_response (host_call Future_incoming_response_get [] s))"
| "await_response (Got_error # rs) n s =
     Some (Inl ''Returned with error'',
       drop_own Future_response (host_call Future_incoming_response_get [] s))"
| "await_response (No_result_yet # rs) n s =
     (let s = host_call Future_incoming_response_get [] s;
          s = host_call Future_incoming_response_subscribe [Pollable n] s;
          s = host_call Poll [] s;
          s = drop_own (Pollable n) s
      in await_response rs (Suc n) s)"

text \<open>
  The response-body loop (\<^verbatim>\<open>while (!eof)\<close>). \<open>closed\<close> is the constant
  \<^verbatim>\<open>WASI_IO_STREAMS_STREAM_ERROR_CLOSED\<close> of the generated header, which is not part
  of the sources: it is a parameter. \<open>full_body\<close> is the buffer of \<^verbatim>\<open>len\<close> bytes.
  The result is \<open>Inl msg\<close> when \<^verbatim>\<open>send\<close> returns from inside the loop, and
  \<open>Inr full_body\<close> when the loop ends with \<^verbatim>\<open>eof\<close> set.
\<close>

fun read_body ::
  "u8 \<Rightarrow> read_result list \<Rightarrow> string \<Rightarrow> http_state \<Rightarrow> ((string + string) \<times> http_state) option"
  where
  "read_body closed [] full_body s = None"
| "read_body closed (Read_chunk chunk # rs) full_body s =
     read_body closed rs (full_body @ chunk) (host_call Blocking_read [] s)"
| "read_body closed (Read_error tag # rs) full_body s =
     (let s = host_call Blocking_read [] s in
      if tag = closed then Some (Inr full_body, s)
      else Some (Inl ''Failed to read from body stream'',
        drop_own Response (drop_own Incoming_body (drop_own Incoming_body_stream s))))"

text \<open>\<^verbatim>\<open>// Processing the response\<close> (lines 240 to 295).\<close>

definition process_response :: "host \<Rightarrow> u8 \<Rightarrow> http_state \<Rightarrow> (string \<times> http_state) option" where
  "process_response h closed s =
     (let s = host_call Incoming_response_status [] s;
          s = host_call Incoming_response_consume
                (on_success (incoming_response_consume h) Incoming_body) s
      in if \<not> incoming_response_consume h
         then Some (''Failed to consume response'', drop_own Response s)
      else let s = host_call Incoming_body_stream_of
                (on_success (incoming_body_stream h) Incoming_body_stream) s
      in if \<not> incoming_body_stream h
         then Some (''Failed to get body stream'',
                drop_own Response (drop_own Incoming_body s))
      else case read_body closed (blocking_read h) [] s of
             None \<Rightarrow> None
           | Some (Inl msg, s) \<Rightarrow> Some (msg, s)
           | Some (Inr full_body, s) \<Rightarrow>
               Some (full_body,
                 drop_own Response (drop_own Incoming_body (drop_own Incoming_body_stream s))))"

text \<open>\<^verbatim>\<open>// Sending the request\<close> and \<^verbatim>\<open>// Awaiting for the response\<close> (lines 151 to 238).\<close>

definition send_request :: "host \<Rightarrow> u8 \<Rightarrow> http_state \<Rightarrow> (string \<times> http_state) option" where
  "send_request h closed s =
     (let s = host_call Constructor_request_options [Request_options] s;
          s = host_call Set_connect_timeout [] s
      in if \<not> set_connect_timeout h
         then Some (''Failed to set connect timeout'',
                drop_own Request (drop_own Request_options s))
      else let s = host_call Set_first_byte_timeout [] s
      in if \<not> set_first_byte_timeout h
         then Some (''Failed to set first byte timeout'',
                drop_own Request (drop_own Request_options s))
      else let s = host_call Set_between_bytes_timeout [] s
      in if \<not> set_between_bytes_timeout h
         then Some (''Failed to set between-bytes timeout'',
                drop_own Request (drop_own Request_options s))
      else let s = host_call Outgoing_handler_handle
                (on_success (outgoing_handler_handle h) Future_response) s
      in if \<not> outgoing_handler_handle h
         then Some (''Failed to send request'', s)
      else case await_response (future_incoming_response_get h) 0 s of
             None \<Rightarrow> None
           | Some (Inl msg, s) \<Rightarrow> Some (msg, s)
           | Some (Inr _, s) \<Rightarrow> process_response h closed s)"

text \<open>
  \<^verbatim>\<open>void exports_pack_name_api_send(component_name_string_t *ret)\<close>, from
  \<^verbatim>\<open>// Setting up the outgoing request\<close> on. The result is the string left in
  \<^verbatim>\<open>*ret\<close> and the state at the return. The messages written to \<^verbatim>\<open>stderr\<close> by
  \<^verbatim>\<open>log\<close> are not modelled. \<^verbatim>\<open>send\<close> uses the results of \<^verbatim>\<open>malloc\<close> and
  \<^verbatim>\<open>realloc\<close> unchecked; the model is of the runs in which these allocations succeed.
\<close>

definition exports_pack_name_api_send ::
  "host \<Rightarrow> u8 \<Rightarrow> http_state \<Rightarrow> (string \<times> http_state) option" where
  "exports_pack_name_api_send h closed s =
     (let s = host_call Fields_from_list (on_success (fields_from_list h) Headers) s
      in if \<not> fields_from_list h
         then Some (''Failed to create header list'', s)
      else let s = host_call Constructor_outgoing_request [Request] s;
               s = host_call Set_method [] s
      in if \<not> set_method h
         then Some (''Failed to set method'', drop_own Request s)
      else let s = host_call Set_path_with_query [] s
      in if \<not> set_path_with_query h
         then Some (''Failed to set path'', drop_own Request s)
      else let s = host_call Set_scheme [] s
      in if \<not> set_scheme h
         then Some (''Failed to set scheme'', drop_own Request s)
      else let s = host_call Set_authority [] s
      in if \<not> set_authority h
         then Some (''Failed to set authority'', drop_own Request s)
      else let s = host_call Outgoing_request_body
                (on_success (outgoing_request_body h) Out_body) s
      in if \<not> outgoing_request_body h
         then Some (''Failed to get outgoing body'', drop_own Request s)
      else let s = host_call Outgoing_body_write
                (on_success (outgoing_body_write h) Out_body_stream) s
      in if \<not> outgoing_body_write h
         then Some (''Failed to get outgoing body stream'',
                drop_own Request (drop_own Out_body s))
      else let s = host_call (Blocking_write_and_flush (body_data (total s))) [] s
      in if \<not> blocking_write_and_flush h
         then Some (''Failed to write body'',
                drop_own Request (drop_own Out_body (drop_own Out_body_stream s)))
      else let s = drop_own Out_body_stream s;
               s = host_call Outgoing_body_finish [] s
      in if \<not> outgoing_body_finish h
         then Some (''Failed to finish body'', drop_own Request s)
      else send_request h closed s)"

text \<open>A call of \<^verbatim>\<open>send\<close> on an instance whose counter is \<open>t\<close>, with an empty log.\<close>

definition http_instance :: "u64 \<Rightarrow> http_state" where
  "http_instance t = \<lparr>total = t, calls = []\<rparr>"

section \<open>The test fixtures\<close>

text \<open>
  Both fixtures call \<^verbatim>\<open>malloc\<close> and use the result unchecked. The C library is not part
  of the sources; it is modelled by its contract in the C standard. A pointer is null or
  points to the start of a block; dereferencing the null pointer, or a block at an offset
  that is not below its size, is a fault, and a fault ends the run.
\<close>

datatype fault = Null_pointer_dereference | Out_of_bounds_access

subsection \<open>\<^verbatim>\<open>large-dynamic-memory/main.c\<close>\<close>

text \<open>
  The allocator is the environment of \<^verbatim>\<open>run\<close>: whether the \<open>n\<close>-th call of
  \<^verbatim>\<open>malloc\<close> succeeds, and the indeterminate bytes the \<open>n\<close>-th block holds. A
  successful \<^verbatim>\<open>malloc(sz)\<close> returns a block of \<open>sz\<close> bytes, a failed one the null
  pointer.
\<close>

datatype pointer = NULL | Block nat nat

record allocator =
  malloc_succeeds :: "nat \<Rightarrow> bool"
  contents :: "nat \<Rightarrow> nat \<Rightarrow> u8"

definition malloc :: "allocator \<Rightarrow> nat \<Rightarrow> nat \<Rightarrow> pointer" where
  "malloc a n sz = (if malloc_succeeds a n then Block n sz else NULL)"

text \<open>\<^verbatim>\<open>p[k]\<close>, read.\<close>

definition load :: "allocator \<Rightarrow> pointer \<Rightarrow> nat \<Rightarrow> fault + u8" where
  "load a p k =
     (case p of
        NULL \<Rightarrow> Inl Null_pointer_dereference
      | Block n sz \<Rightarrow> if k < sz then Inr (contents a n k) else Inl Out_of_bounds_access)"

text \<open>
  What \<^verbatim>\<open>run\<close> does, in order: the calls of \<^verbatim>\<open>malloc\<close> with their results, the
  reads through the pointer, the calls of \<^verbatim>\<open>printf\<close> (format, \<^verbatim>\<open>i\<close> and the byte
  read) and of \<^verbatim>\<open>usleep\<close>.
\<close>

datatype run_event =
    Malloc nat pointer
  | Load pointer nat
  | Printf string int u8
  | Usleep nat

text \<open>
  \<^verbatim>\<open>#define PAGE_SIZE 1024*1024\<close> and \<^verbatim>\<open>#define COUNT 512\<close>. The macro has no
  parentheses; its two uses expand to \<^verbatim>\<open>malloc(1024*1024)\<close> and
  \<^verbatim>\<open>DATA[1024*1024-1]\<close>, which is \<open>PAGE_SIZE - 1\<close>.
\<close>

definition PAGE_SIZE :: nat where
  "PAGE_SIZE = 1024 * 1024"

definition COUNT :: int where
  "COUNT = 512"

text \<open>
  \<^verbatim>\<open>for (int i = 0; i < COUNT; i++) { ... }\<close>. Iteration \<open>i\<close> makes the \<open>i\<close>-th call of
  \<^verbatim>\<open>malloc\<close>; no block is freed.
\<close>

function run_loop ::
  "allocator \<Rightarrow> int \<Rightarrow> run_event list \<Rightarrow> (fault + unit) \<times> run_event list" where
  "run_loop a i log =
     (if i < COUNT then
        (let DATA = malloc a (nat i) PAGE_SIZE;
             log = log @ [Malloc PAGE_SIZE DATA];
             log = log @ [Load DATA 0]
         in case load a DATA 0 of
              Inl f \<Rightarrow> (Inl f, log)
            | Inr first_byte \<Rightarrow>
                (let log = log @ [Printf ''page %d first: %d\<newline>'' i first_byte];
                     log = log @ [Load DATA (PAGE_SIZE - 1)]
                 in case load a DATA (PAGE_SIZE - 1) of
                      Inl f \<Rightarrow> (Inl f, log)
                    | Inr last_byte \<Rightarrow>
                        run_loop a (i + 1)
                          (log @ [Printf ''page %d last:  %d\<newline>'' i last_byte,
                                  Usleep 5])))
      else (Inr (), log))"
  by pat_completeness auto
termination
  by (relation "measure (\<lambda>(a, i, log). nat (COUNT - i))") auto

declare run_loop.simps [simp del]

text \<open>\<^verbatim>\<open>uint64_t exports_c_api1_run(void)\<close>: the loop, then \<^verbatim>\<open>return 0\<close>.\<close>

definition exports_c_api1_run :: "allocator \<Rightarrow> (fault + u64) \<times> run_event list" where
  "exports_c_api1_run a =
     (case run_loop a 0 [] of
        (Inl f, log) \<Rightarrow> (Inl f, log)
      | (Inr _, log) \<Rightarrow> (Inr 0, log))"

text \<open>
  An iteration as the claim describes it: one block of 1048576 bytes is allocated, and
  its first and last byte are read and printed.
\<close>

definition iteration :: "allocator \<Rightarrow> int \<Rightarrow> run_event list" where
  "iteration a i =
     [Malloc 1048576 (Block (nat i) 1048576),
      Load (Block (nat i) 1048576) 0,
      Printf ''page %d first: %d\<newline>'' i (contents a (nat i) 0),
      Load (Block (nat i) 1048576) 1048575,
      Printf ''page %d last:  %d\<newline>'' i (contents a (nat i) 1048575),
      Usleep 5]"

text \<open>
  Two allocators: one whose every call succeeds, and one whose first two calls succeed
  and whose third call returns the null pointer. Their blocks hold zero bytes.
\<close>

definition every_malloc_succeeds :: allocator where
  "every_malloc_succeeds = \<lparr>malloc_succeeds = (\<lambda>n. True), contents = (\<lambda>n k. 0)\<rparr>"

definition third_malloc_fails :: allocator where
  "third_malloc_fails = \<lparr>malloc_succeeds = (\<lambda>n. n < 2), contents = (\<lambda>n k. 0)\<rparr>"

subsection \<open>\<^verbatim>\<open>c-1/main.c\<close>: \<^verbatim>\<open>exports_c_api1_print\<close>\<close>

text \<open>
  The argument \<^verbatim>\<open>c_api1_string_t *s\<close>: \<open>ptr s k\<close> is the byte of memory at
  \<^verbatim>\<open>s->ptr + k\<close>, for every \<open>k\<close>, also beyond the string; \<open>len s\<close> is \<^verbatim>\<open>s->len\<close>, a
  \<^verbatim>\<open>size_t\<close>, which has 32 bits on the wasm32 target of the fixture. The environment
  says whether \<^verbatim>\<open>malloc\<close> succeeds, what the fresh block holds, and what
  \<^verbatim>\<open>localtime\<close> returns (\<^verbatim>\<open>tm_year\<close>, or a null pointer).
\<close>

record c_api1_string_t =
  ptr :: "nat \<Rightarrow> char"
  len :: u32

record print_env =
  malloc_ok :: bool
  junk :: "nat \<Rightarrow> char"
  localtime :: "int option"

text \<open>
  A buffer is \<open>None\<close> (the null pointer) or the bytes of its block.
  \<^verbatim>\<open>memset(buf, 0, n)\<close> writes \<open>n\<close> zero bytes.
\<close>

definition memset_zero :: "string option \<Rightarrow> nat \<Rightarrow> fault + string option" where
  "memset_zero buf n =
     (if n = 0 then Inr buf
      else case buf of
             None \<Rightarrow> Inl Null_pointer_dereference
           | Some b \<Rightarrow>
               if n \<le> length b then Inr (Some (replicate n (CHR 0x00) @ drop n b))
               else Inl Out_of_bounds_access)"

text \<open>
  \<^verbatim>\<open>strncpy(dst, src, n)\<close> as the C standard specifies it: it copies at most \<open>n\<close>
  characters from \<open>src\<close>, none after a null character, and writes null characters until
  \<open>n\<close> characters in all are written. \<open>strncpy dst src k m reads\<close> continues at offset
  \<open>k\<close> with \<open>m\<close> characters left, \<open>reads\<close> being the offsets of \<open>src\<close> read so far;
  the result is the buffer, or a fault, and all the offsets of \<open>src\<close> that were read.
\<close>

fun strncpy ::
  "string option \<Rightarrow> (nat \<Rightarrow> char) \<Rightarrow> nat \<Rightarrow> nat \<Rightarrow> nat list
     \<Rightarrow> (fault + string option) \<times> nat list" where
  "strncpy dst src k 0 reads = (Inr dst, reads)"
| "strncpy dst src k (Suc m) reads =
     (case dst of
        None \<Rightarrow> (Inl Null_pointer_dereference, reads @ [k])
      | Some d \<Rightarrow>
          if length d \<le> k then (Inl Out_of_bounds_access, reads @ [k])
          else if src k = CHR 0x00 then
            (if k + Suc m \<le> length d
             then Inr (Some (take k d @ replicate (Suc m) (CHR 0x00) @ drop (k + Suc m) d))
             else Inl Out_of_bounds_access, reads @ [k])
          else strncpy (Some (d[k := src k])) src (Suc k) m (reads @ [k]))"

text \<open>\<^verbatim>\<open>%s\<close> of \<^verbatim>\<open>printf\<close>: the bytes of the buffer before its first null character.\<close>

definition c_string :: "string option \<Rightarrow> fault + string" where
  "c_string buf =
     (case buf of
        None \<Rightarrow> Inl Null_pointer_dereference
      | Some b \<Rightarrow>
          if CHR 0x00 \<in> set b then Inr (takeWhile (\<lambda>c. c \<noteq> CHR 0x00) b)
          else Inl Out_of_bounds_access)"

text \<open>\<^verbatim>\<open>%d\<close> of \<^verbatim>\<open>printf\<close>.\<close>

definition decimal_int :: "int \<Rightarrow> string" where
  "decimal_int i = (if i < 0 then ''-'' @ decimal (nat (- i)) else decimal (nat i))"

text \<open>
  \<^verbatim>\<open>void exports_c_api1_print(c_api1_string_t *s)\<close>. \<^verbatim>\<open>s->len + 1\<close> is computed in
  \<^verbatim>\<open>size_t\<close> and wraps to 0 for the largest length. The result is the line printed, or
  the fault that ended the run, and the offsets from \<^verbatim>\<open>s->ptr\<close> that were read.
\<close>

definition exports_c_api1_print ::
  "print_env \<Rightarrow> c_api1_string_t \<Rightarrow> (fault + string) \<times> nat list" where
  "exports_c_api1_print env s =
     (let sz = unat (len s + 1);
          buf = (if malloc_ok env then Some (map (junk env) [0..<sz]) else None)
      in case memset_zero buf sz of
           Inl f \<Rightarrow> (Inl f, [])
         | Inr buf \<Rightarrow>
             (case strncpy buf (ptr s) 0 (unat (len s)) [] of
                (Inl f, reads) \<Rightarrow> (Inl f, reads)
              | (Inr buf, reads) \<Rightarrow>
                  (case localtime env of
                     None \<Rightarrow> (Inl Null_pointer_dereference, reads)
                   | Some tm_year \<Rightarrow>
                       (case c_string buf of
                          Inl f \<Rightarrow> (Inl f, reads)
                        | Inr text \<Rightarrow>
                            (Inr (text @ '' '' @ decimal_int (tm_year + 1900) @ ''\<newline>''),
                             reads)))))"

section \<open>Notions for the properties of \<^verbatim>\<open>send\<close>\<close>

text \<open>
  What the host's scripts say: the first answer of \<^verbatim>\<open>future_incoming_response_get\<close>
  that is a result, the chunks \<^verbatim>\<open>blocking_read\<close> delivers before its first error, and
  the tag of that error.
\<close>

fun first_result :: "future_result list \<Rightarrow> future_result option" where
  "first_result [] = None"
| "first_result (No_result_yet # rs) = first_result rs"
| "first_result (r # rs) = Some r"

fun leading_chunks :: "read_result list \<Rightarrow> string list" where
  "leading_chunks (Read_chunk chunk # rs) = chunk # leading_chunks rs"
| "leading_chunks _ = []"

fun first_error :: "read_result list \<Rightarrow> u8 option" where
  "first_error [] = None"
| "first_error (Read_chunk chunk # rs) = first_error rs"
| "first_error (Read_error tag # rs) = Some tag"

text \<open>The string literals that \<^verbatim>\<open>send\<close> passes to \<^verbatim>\<open>set_string(ret, ...)\<close>.\<close>

definition error_messages :: "string list" where
  "error_messages =
     [''Failed to create header list'', ''Failed to set method'', ''Failed to set path'',
      ''Failed to set scheme'', ''Failed to set authority'', ''Failed to get outgoing body'',
      ''Failed to get outgoing body stream'', ''Failed to write body'',
      ''Failed to finish body'', ''Failed to set connect timeout'',
      ''Failed to set first byte timeout'', ''Failed to set between-bytes timeout'',
      ''Failed to send request'', ''Returned with error code'', ''Returned with error'',
      ''Failed to consume response'', ''Failed to get body stream'',
      ''Failed to read from body stream'']"

text \<open>
  The steps of the outgoing-request workflow, in the order the specification gives them,
  the step each call of the bindings belongs to (dropping a handle is no step), and what
  it means for a step to succeed under a host.
\<close>

datatype step =
    Construct_request | Set_the_method | Set_the_path | Set_the_scheme | Set_the_authority
  | Open_body_stream | Write_body | Finish_body | Set_timeouts | Dispatch | Poll_loop
  | Read_status | Stream_body

definition workflow :: "step list" where
  "workflow =
     [Construct_request, Set_the_method, Set_the_path, Set_the_scheme, Set_the_authority,
      Open_body_stream, Write_body, Finish_body, Set_timeouts, Dispatch, Poll_loop,
      Read_status, Stream_body]"

fun workflow_step :: "host_call \<Rightarrow> step option" where
  "workflow_step Fields_from_list = Some Construct_request"
| "workflow_step Constructor_outgoing_request = Some Construct_request"
| "workflow_step Set_method = Some Set_the_method"
| "workflow_step Set_path_with_query = Some Set_the_path"
| "workflow_step Set_scheme = Some Set_the_scheme"
| "workflow_step Set_authority = Some Set_the_authority"
| "workflow_step Outgoing_request_body = Some Open_body_stream"
| "workflow_step Outgoing_body_write = Some Open_body_stream"
| "workflow_step (Blocking_write_and_flush b) = Some Write_body"
| "workflow_step Outgoing_body_finish = Some Finish_body"
| "workflow_step Constructor_request_options = Some Set_timeouts"
| "workflow_step Set_connect_timeout = Some Set_timeouts"
| "workflow_step Set_first_byte_timeout = Some Set_timeouts"
| "workflow_step Set_between_bytes_timeout = Some Set_timeouts"
| "workflow_step Outgoing_handler_handle = Some Dispatch"
| "workflow_step Future_incoming_response_get = Some Poll_loop"
| "workflow_step Future_incoming_response_subscribe = Some Poll_loop"
| "workflow_step Poll = Some Poll_loop"
| "workflow_step Incoming_response_status = Some Read_status"
| "workflow_step Incoming_response_consume = Some Stream_body"
| "workflow_step Incoming_body_stream_of = Some Stream_body"
| "workflow_step Blocking_read = Some Stream_body"
| "workflow_step (Drop_own x) = None"

fun steps :: "(host_call \<times> own_handle list) list \<Rightarrow> step list" where
  "steps [] = []"
| "steps ((c, returned) # l) =
     (case workflow_step c of None \<Rightarrow> steps l | Some st \<Rightarrow> st # steps l)"

fun step_succeeds :: "host \<Rightarrow> u8 \<Rightarrow> step \<Rightarrow> bool" where
  "step_succeeds h closed Construct_request = fields_from_list h"
| "step_succeeds h closed Set_the_method = set_method h"
| "step_succeeds h closed Set_the_path = set_path_with_query h"
| "step_succeeds h closed Set_the_scheme = set_scheme h"
| "step_succeeds h closed Set_the_authority = set_authority h"
| "step_succeeds h closed Open_body_stream =
     (outgoing_request_body h \<and> outgoing_body_write h)"
| "step_succeeds h closed Write_body = blocking_write_and_flush h"
| "step_succeeds h closed Finish_body = outgoing_body_finish h"
| "step_succeeds h closed Set_timeouts =
     (set_connect_timeout h \<and> set_first_byte_timeout h \<and> set_between_bytes_timeout h)"
| "step_succeeds h closed Dispatch = outgoing_handler_handle h"
| "step_succeeds h closed Poll_loop =
     (first_result (future_incoming_response_get h) = Some Got_response)"
| "step_succeeds h closed Read_status = True"
| "step_succeeds h closed Stream_body =
     (incoming_response_consume h \<and> incoming_body_stream h
      \<and> first_error (blocking_read h) = Some closed)"

text \<open>
  The steps a run performs if it follows the workflow strictly: every step up to and
  including the first one that does not succeed, and nothing after it.
\<close>

definition steps_performed :: "host \<Rightarrow> u8 \<Rightarrow> step list" where
  "steps_performed h closed =
     take (Suc (length (takeWhile (step_succeeds h closed) workflow))) workflow"

text \<open>
  Ownership. A call returns own handles to \<^verbatim>\<open>send\<close> (the second component of a log
  entry). \<^verbatim>\<open>send\<close> gives an own handle up by dropping it or by passing it by value
  (not through a \<^verbatim>\<open>..._borrow_...\<close> conversion) to a call: the headers to the request
  constructor, the outgoing body to \<^verbatim>\<open>outgoing_body_finish\<close>, the request and the
  options to \<^verbatim>\<open>outgoing_handler_handle\<close>.
\<close>

fun given :: "host_call \<Rightarrow> own_handle list" where
  "given Constructor_outgoing_request = [Headers]"
| "given Outgoing_body_finish = [Out_body]"
| "given Outgoing_handler_handle = [Request, Request_options]"
| "given (Drop_own x) = [x]"
| "given _ = []"

definition acquired :: "(host_call \<times> own_handle list) list \<Rightarrow> own_handle list" where
  "acquired l = concat (map snd l)"

definition released :: "(host_call \<times> own_handle list) list \<Rightarrow> own_handle list" where
  "released l = concat (map (given \<circ> fst) l)"

text \<open>A host on which every single call succeeds, with the given scripts for the loops.\<close>

definition cooperative_host :: "future_result list \<Rightarrow> read_result list \<Rightarrow> host" where
  "cooperative_host futures reads =
     \<lparr>fields_from_list = True, set_method = True, set_path_with_query = True,
      set_scheme = True, set_authority = True, outgoing_request_body = True,
      outgoing_body_write = True, blocking_write_and_flush = True,
      outgoing_body_finish = True, set_connect_timeout = True,
      set_first_byte_timeout = True, set_between_bytes_timeout = True,
      outgoing_handler_handle = True, future_incoming_response_get = futures,
      incoming_response_consume = True, incoming_body_stream = True,
      blocking_read = reads\<rparr>"

text \<open>The state \<open>s\<close> after further calls: only the log grows.\<close>

definition appended :: "http_state \<Rightarrow> (host_call \<times> own_handle list) list \<Rightarrow> http_state" where
  "appended s evs = s\<lparr>calls := calls s @ evs\<rparr>"

section \<open>Properties of the counter\<close>

lemma total_add_calls: "total (add_calls vs s) = total s + sum_list vs"
  by (induction vs arbitrary: s) (simp_all add: exports_pack_name_api_add_def add.assoc)

lemma total_add_calls_cpp: "total (add_calls_cpp vs s) = total s + sum_list vs"
  by (induction vs arbitrary: s)
    (simp_all add: exports_pack_name_exports_component_name_api_add_def add.assoc)

lemma unat_sum_list_u64: "unat (sum_list vs :: u64) = sum_list (map unat vs) mod 2 ^ 64"
proof (induction vs)
  case Nil
  show ?case by simp
next
  case (Cons v vs)
  have "unat (v + sum_list vs) = (unat v + unat (sum_list vs)) mod 2 ^ 64"
    by (simp add: unat_word_ariths)
  also have "\<dots> = (unat v + sum_list (map unat vs) mod 2 ^ 64) mod 2 ^ 64"
    by (simp only: Cons.IH)
  also have "\<dots> = (unat v + sum_list (map unat vs)) mod 2 ^ 64"
    by (rule mod_add_right_eq)
  finally show ?case by simp
qed

text \<open>
  C1, as stated, fails where the sum of the arguments does not fit in 64 bits: after
  \<open>add(2\<^sup>6\<^sup>4 - 1)\<close> and \<open>add(1)\<close> on a freshly loaded instance \<open>get()\<close> returns 0, and
  the sum of the arguments is \<open>2\<^sup>6\<^sup>4\<close>. So it is for the exports of
  \<^verbatim>\<open>component.cpp\<close>.
\<close>

theorem get_after_overflowing_adds_is_not_sum:
  "unat (fst (exports_pack_name_api_get
       (add_calls [18446744073709551615, 1] fresh_instance))) = 0
   \<and> sum_list (map unat [18446744073709551615, 1 :: u64]) = 18446744073709551616
   \<and> unat (fst (exports_component_name_exports_component_name_api_get
       (add_calls_cpp [18446744073709551615, 1] fresh_instance))) = 0"
  by (simp add: exports_pack_name_api_get_def exports_pack_name_api_add_def
      exports_component_name_exports_component_name_api_get_def
      exports_pack_name_exports_component_name_api_add_def fresh_instance_def)

text \<open>
  C1, amended. On a freshly loaded instance, \<open>get()\<close> after the calls
  \<open>add(v\<^sub>1), ..., add(v\<^sub>N)\<close> returns the sum of the \<open>v\<^sub>i\<close> modulo \<open>2\<^sup>6\<^sup>4\<close>, which is
  the sum of the \<open>v\<^sub>i\<close> whenever that sum is below \<open>2\<^sup>6\<^sup>4\<close>; with no call at all it
  returns 0. The same holds for the two exports of \<^verbatim>\<open>component.cpp\<close>.
\<close>

theorem get_after_adds_is_sum_mod:
  "unat (fst (exports_pack_name_api_get (add_calls vs fresh_instance)))
     = sum_list (map unat vs) mod 2 ^ 64
   \<and> unat (fst (exports_component_name_exports_component_name_api_get
            (add_calls_cpp vs fresh_instance))) = sum_list (map unat vs) mod 2 ^ 64
   \<and> fst (exports_pack_name_api_get fresh_instance) = 0
   \<and> fst (exports_component_name_exports_component_name_api_get fresh_instance) = 0
   \<and> (sum_list (map unat vs) < 2 ^ 64 \<longrightarrow>
        unat (fst (exports_pack_name_api_get (add_calls vs fresh_instance)))
          = sum_list (map unat vs)
        \<and> unat (fst (exports_component_name_exports_component_name_api_get
            (add_calls_cpp vs fresh_instance))) = sum_list (map unat vs))"
  by (simp add: exports_pack_name_api_get_def
      exports_component_name_exports_component_name_api_get_def
      total_add_calls total_add_calls_cpp fresh_instance_def unat_sum_list_u64)

theorem get_after_adds_is_sum_mod_witness:
  "sum_list (map unat [3, 4, 5 :: u64]) < 2 ^ 64
   \<and> unat (fst (exports_pack_name_api_get (add_calls [3, 4, 5] fresh_instance))) = 12
   \<and> unat (fst (exports_component_name_exports_component_name_api_get
         (add_calls_cpp [3, 4, 5] fresh_instance))) = 12"
  using get_after_adds_is_sum_mod [of "[3, 4, 5]"] by simp

text \<open>
  C9. From every starting counter value, two sequences of \<open>add\<close> arguments that are
  permutations of each other (equal as multisets) leave the same counter, hence the same
  result of \<open>get()\<close>.
\<close>

theorem get_invariant_under_permutation:
  "mset vs = mset ws \<Longrightarrow>
     add_calls vs s = add_calls ws s
     \<and> fst (exports_pack_name_api_get (add_calls vs s))
         = fst (exports_pack_name_api_get (add_calls ws s))"
proof -
  assume perm: "mset vs = mset ws"
  have "sum_list vs = sum_mset (mset vs)"
    by (simp add: sum_mset_sum_list)
  also have "\<dots> = sum_mset (mset ws)"
    by (simp only: perm)
  also have "\<dots> = sum_list ws"
    by (simp add: sum_mset_sum_list)
  finally have sums: "sum_list vs = sum_list ws" .
  have more: "component_state.more (add_calls xs s) = component_state.more s" for xs
    by (induction xs arbitrary: s) (simp_all add: exports_pack_name_api_add_def)
  have "total (add_calls vs s) = total (add_calls ws s)"
    by (simp add: total_add_calls sums)
  then have "add_calls vs s = add_calls ws s"
    by (simp add: component_state.equality more)
  then show ?thesis by simp
qed

theorem get_invariant_under_permutation_witness:
  "mset [1, 2, 3 :: u64] = mset [3, 1, 2]
   \<and> add_calls [1, 2, 3] \<lparr>total = 10\<rparr> = add_calls [3, 1, 2] \<lparr>total = 10\<rparr>
   \<and> fst (exports_pack_name_api_get (add_calls [1, 2, 3] \<lparr>total = 10\<rparr>)) = 16
   \<and> fst (exports_pack_name_api_get (add_calls [3, 1, 2] \<lparr>total = 10\<rparr>)) = 16"
proof -
  have perm: "mset [1, 2, 3 :: u64] = mset [3, 1, 2]"
    by (simp add: add_mset_commute)
  have val: "fst (exports_pack_name_api_get (add_calls [3, 1, 2] \<lparr>total = 10\<rparr>)) = 16"
    by (simp add: exports_pack_name_api_get_def exports_pack_name_api_add_def)
  from get_invariant_under_permutation [OF perm, of "\<lparr>total = 10\<rparr>"] perm val
  show ?thesis by simp
qed

text \<open>
  C10. The counter arithmetic is exact modulo \<open>2\<^sup>6\<^sup>4\<close>: after \<open>add(v)\<close> on a counter \<open>t\<close>
  the counter, read as a number, is \<open>(t + v) mod 2\<^sup>6\<^sup>4\<close>; after
  \<open>add(v\<^sub>1), ..., add(v\<^sub>N)\<close> on a fresh instance \<open>get()\<close> returns the sum of the
  \<open>v\<^sub>i\<close> modulo \<open>2\<^sup>6\<^sup>4\<close>. An overflowing \<open>add\<close> wraps: it neither fails nor
  saturates (the model of \<open>add\<close> is total, and \<open>add(1)\<close> on the largest counter value
  gives 0).
\<close>

theorem add_exact_mod_2_64:
  "unat (total (exports_pack_name_api_add v s)) = (unat (total s) + unat v) mod 2 ^ 64
   \<and> unat (fst (exports_pack_name_api_get (add_calls vs fresh_instance)))
       = sum_list (map unat vs) mod 2 ^ 64
   \<and> total (exports_pack_name_api_add 1 \<lparr>total = 18446744073709551615\<rparr>) = 0"
  by (simp add: exports_pack_name_api_add_def exports_pack_name_api_get_def
      total_add_calls fresh_instance_def unat_sum_list_u64 unat_word_ariths)

section \<open>Properties of \<^verbatim>\<open>send\<close>\<close>

subsection \<open>The counter is not written\<close>

lemma total_host_call [simp]: "total (host_call c r s) = total s"
  by (simp add: host_call_def)

lemma total_drop_own [simp]: "total (drop_own x s) = total s"
  by (simp add: drop_own_def)

lemma await_response_total:
  "await_response rs n s = Some (r, s') \<Longrightarrow> total s' = total s"
proof (induction rs arbitrary: n s)
  case Nil
  then show ?case by simp
next
  case (Cons a rs)
  then show ?case by (cases a) (auto simp: Let_def)
qed

lemma read_body_total:
  "read_body closed rs full_body s = Some (r, s') \<Longrightarrow> total s' = total s"
  by (induction closed rs full_body s rule: read_body.induct)
    (auto simp: Let_def split: if_splits)

lemma process_response_total:
  "process_response h closed s = Some (ret, s') \<Longrightarrow> total s' = total s"
  by (auto simp: process_response_def Let_def split: if_splits option.splits sum.splits
      dest!: read_body_total)

lemma send_request_total:
  "send_request h closed s = Some (ret, s') \<Longrightarrow> total s' = total s"
  by (auto simp: send_request_def Let_def split: if_splits option.splits sum.splits
      dest!: await_response_total process_response_total)

lemma send_total:
  "exports_pack_name_api_send h closed s = Some (ret, s') \<Longrightarrow> total s' = total s"
  by (auto simp: exports_pack_name_api_send_def Let_def split: if_splits
      dest!: send_request_total)

subsection \<open>What the loops return\<close>

lemma in_error_messages:
  "''Failed to create header list'' \<in> set error_messages"
  "''Failed to set method'' \<in> set error_messages"
  "''Failed to set path'' \<in> set error_messages"
  "''Failed to set scheme'' \<in> set error_messages"
  "''Failed to set authority'' \<in> set error_messages"
  "''Failed to get outgoing body'' \<in> set error_messages"
  "''Failed to get outgoing body stream'' \<in> set error_messages"
  "''Failed to write body'' \<in> set error_messages"
  "''Failed to finish body'' \<in> set error_messages"
  "''Failed to set connect timeout'' \<in> set error_messages"
  "''Failed to set first byte timeout'' \<in> set error_messages"
  "''Failed to set between-bytes timeout'' \<in> set error_messages"
  "''Failed to send request'' \<in> set error_messages"
  "''Returned with error code'' \<in> set error_messages"
  "''Returned with error'' \<in> set error_messages"
  "''Failed to consume response'' \<in> set error_messages"
  "''Failed to get body stream'' \<in> set error_messages"
  "''Failed to read from body stream'' \<in> set error_messages"
  by (simp_all add: error_messages_def)

lemma await_response_result:
  "await_response rs n s = Some (r, s') \<Longrightarrow>
     (case r of Inr _ \<Rightarrow> first_result rs = Some Got_response
      | Inl msg \<Rightarrow> msg \<in> set error_messages \<and> first_result rs \<noteq> Some Got_response)"
proof (induction rs arbitrary: n s)
  case Nil
  then show ?case by simp
next
  case (Cons a rs)
  show ?case
  proof (cases a)
    case No_result_yet
    with Cons.prems obtain s1 where "await_response rs (Suc n) s1 = Some (r, s')"
      by (simp add: Let_def)
    from Cons.IH [OF this] show ?thesis
      using No_result_yet by (simp split: sum.splits)
  qed (use Cons.prems in \<open>auto simp: in_error_messages\<close>)
qed

lemma read_body_result:
  "read_body closed rs full_body s = Some (r, s') \<Longrightarrow>
     (case r of
        Inr body \<Rightarrow> first_error rs = Some closed \<and> body = full_body @ concat (leading_chunks rs)
      | Inl msg \<Rightarrow> msg = ''Failed to read from body stream'' \<and> first_error rs \<noteq> Some closed)"
  by (induction closed rs full_body s rule: read_body.induct)
    (auto simp: Let_def split: if_splits sum.splits)

lemma await_response_returns:
  "first_result rs \<noteq> None \<Longrightarrow> \<exists>r s'. await_response rs n s = Some (r, s')"
proof (induction rs arbitrary: n s)
  case Nil
  then show ?case by simp
next
  case (Cons a rs)
  then show ?case by (cases a) (simp_all add: Let_def)
qed

lemma read_body_returns:
  "first_error rs \<noteq> None \<Longrightarrow> \<exists>r s'. read_body closed rs full_body s = Some (r, s')"
proof (induction rs arbitrary: full_body s)
  case Nil
  then show ?case by simp
next
  case (Cons a rs)
  then show ?case by (cases a) (simp_all add: Let_def)
qed

lemma process_response_returns:
  "first_error (blocking_read h) \<noteq> None \<Longrightarrow>
   \<exists>ret s'. process_response h closed s = Some (ret, s')"
proof -
  assume a: "first_error (blocking_read h) \<noteq> None"
  show ?thesis
  proof (cases "incoming_response_consume h \<and> incoming_body_stream h")
    case False
    then show ?thesis by (auto simp: process_response_def Let_def)
  next
    case True
    define s0 where "s0 = host_call Incoming_body_stream_of
       (on_success True Incoming_body_stream)
       (host_call Incoming_response_consume (on_success True Incoming_body)
         (host_call Incoming_response_status [] s))"
    from read_body_returns [OF a] obtain r s1 where
      "read_body closed (blocking_read h) [] s0 = Some (r, s1)" by blast
    with True show ?thesis
      by (cases r) (simp_all add: process_response_def Let_def s0_def)
  qed
qed

lemma send_request_returns:
  "first_result (future_incoming_response_get h) \<noteq> None \<Longrightarrow>
   first_error (blocking_read h) \<noteq> None \<Longrightarrow>
   \<exists>ret s'. send_request h closed s = Some (ret, s')"
proof -
  assume a: "first_result (future_incoming_response_get h) \<noteq> None"
    and b: "first_error (blocking_read h) \<noteq> None"
  show ?thesis
  proof (cases "set_connect_timeout h \<and> set_first_byte_timeout h
      \<and> set_between_bytes_timeout h \<and> outgoing_handler_handle h")
    case False
    then show ?thesis by (auto simp: send_request_def Let_def)
  next
    case True
    define s0 where "s0 = host_call Outgoing_handler_handle
       (on_success True Future_response)
       (host_call Set_between_bytes_timeout []
         (host_call Set_first_byte_timeout []
           (host_call Set_connect_timeout []
             (host_call Constructor_request_options [Request_options] s))))"
    from await_response_returns [OF a] obtain r s1 where
      r: "await_response (future_incoming_response_get h) 0 s0 = Some (r, s1)" by blast
    from process_response_returns [OF b] obtain ret s2 where
      p: "process_response h closed s1 = Some (ret, s2)" by blast
    from True r p show ?thesis
      by (cases r) (simp_all add: send_request_def Let_def s0_def)
  qed
qed

lemma send_returns:
  "first_result (future_incoming_response_get h) \<noteq> None \<Longrightarrow>
   first_error (blocking_read h) \<noteq> None \<Longrightarrow>
   \<exists>ret s'. exports_pack_name_api_send h closed s = Some (ret, s')"
  unfolding exports_pack_name_api_send_def Let_def
  by (simp add: send_request_returns)

text \<open>
  The response-await loop has no bound of its own: as long as the host answers that
  there is no result yet, \<^verbatim>\<open>send\<close> keeps polling and does not return.
\<close>

lemma await_response_no_result:
  "await_response (replicate n No_result_yet) k s = None"
  by (induction n arbitrary: k s) (simp_all add: Let_def)

lemma send_polls_while_no_result:
  "exports_pack_name_api_send (cooperative_host (replicate n No_result_yet) reads) closed s
     = None"
  by (simp add: exports_pack_name_api_send_def send_request_def Let_def
      cooperative_host_def await_response_no_result)

text \<open>When \<^verbatim>\<open>send\<close> does not return.\<close>

lemma await_response_None_iff:
  "await_response rs n s = None \<longleftrightarrow> first_result rs = None"
proof (induction rs arbitrary: n s)
  case Nil
  show ?case by simp
next
  case (Cons a rs)
  then show ?case by (cases a) (simp_all add: Let_def)
qed

lemma read_body_None_iff:
  "read_body closed rs full_body s = None \<longleftrightarrow> first_error rs = None"
proof (induction rs arbitrary: full_body s)
  case Nil
  show ?case by simp
next
  case (Cons a rs)
  then show ?case by (cases a) (simp_all add: Let_def)
qed

lemma process_response_None_iff:
  "process_response h closed s = None \<longleftrightarrow>
     incoming_response_consume h \<and> incoming_body_stream h
     \<and> first_error (blocking_read h) = None"
proof (cases "incoming_response_consume h \<and> incoming_body_stream h")
  case False
  then show ?thesis by (auto simp: process_response_def Let_def)
next
  case True
  define s0 where "s0 = host_call Incoming_body_stream_of
       (on_success True Incoming_body_stream)
       (host_call Incoming_response_consume (on_success True Incoming_body)
         (host_call Incoming_response_status [] s))"
  have "process_response h closed s = None
      \<longleftrightarrow> read_body closed (blocking_read h) [] s0 = None"
    using True
    by (simp add: process_response_def Let_def s0_def split: option.splits sum.splits)
  with True show ?thesis by (simp add: read_body_None_iff)
qed

lemma send_request_None_iff:
  "send_request h closed s = None \<longleftrightarrow>
     set_connect_timeout h \<and> set_first_byte_timeout h \<and> set_between_bytes_timeout h
     \<and> outgoing_handler_handle h
     \<and> (first_result (future_incoming_response_get h) = None
        \<or> first_result (future_incoming_response_get h) = Some Got_response
          \<and> incoming_response_consume h \<and> incoming_body_stream h
          \<and> first_error (blocking_read h) = None)"
proof (cases "set_connect_timeout h \<and> set_first_byte_timeout h
      \<and> set_between_bytes_timeout h \<and> outgoing_handler_handle h")
  case False
  then show ?thesis by (auto simp: send_request_def Let_def)
next
  case True
  define s0 where "s0 = host_call Outgoing_handler_handle
       (on_success True Future_response)
       (host_call Set_between_bytes_timeout []
         (host_call Set_first_byte_timeout []
           (host_call Set_connect_timeout []
             (host_call Constructor_request_options [Request_options] s))))"
  have unfold: "send_request h closed s =
      (case await_response (future_incoming_response_get h) 0 s0 of
         None \<Rightarrow> None
       | Some (Inl msg, s) \<Rightarrow> Some (msg, s)
       | Some (Inr _, s) \<Rightarrow> process_response h closed s)"
    using True by (simp add: send_request_def Let_def s0_def)
  show ?thesis
  proof (cases "await_response (future_incoming_response_get h) 0 s0")
    case None
    then have "first_result (future_incoming_response_get h) = None"
      by (simp add: await_response_None_iff)
    with None True unfold show ?thesis by simp
  next
    case (Some p)
    obtain r s1 where p: "p = (r, s1)" by (cases p)
    from Some p have run: "await_response (future_incoming_response_get h) 0 s0 = Some (r, s1)"
      by simp
    show ?thesis
    proof (cases r)
      case (Inl msg)
      with await_response_result [OF run]
      have "first_result (future_incoming_response_get h) \<noteq> Some Got_response" by simp
      moreover from run have "first_result (future_incoming_response_get h) \<noteq> None"
        using await_response_None_iff [of "future_incoming_response_get h" 0 s0] by simp
      ultimately show ?thesis using unfold run Inl by simp
    next
      case (Inr u)
      with await_response_result [OF run]
      have "first_result (future_incoming_response_get h) = Some Got_response" by simp
      then show ?thesis
        using unfold run Inr True by (simp add: process_response_None_iff)
    qed
  qed
qed

lemma send_None_iff:
  "exports_pack_name_api_send h closed s = None \<longleftrightarrow>
     list_all (step_succeeds h closed) (take 10 workflow)
     \<and> (first_result (future_incoming_response_get h) = None
        \<or> first_result (future_incoming_response_get h) = Some Got_response
          \<and> incoming_response_consume h \<and> incoming_body_stream h
          \<and> first_error (blocking_read h) = None)"
  by (auto simp: exports_pack_name_api_send_def Let_def send_request_None_iff workflow_def)

text \<open>
  Nor has the response-body loop a bound: as long as the stream delivers chunks,
  \<^verbatim>\<open>send\<close> keeps reading.
\<close>

lemma send_reads_while_chunks:
  "exports_pack_name_api_send (cooperative_host [Got_response] (map Read_chunk chunks)) closed s
     = None"
proof -
  have "first_error (map Read_chunk chunks) = None"
    by (induction chunks) simp_all
  then show ?thesis
    by (simp add: send_None_iff cooperative_host_def workflow_def)
qed

lemma send_outcome:
  "exports_pack_name_api_send h closed s = Some (ret, s') \<Longrightarrow>
     (if list_all (step_succeeds h closed) workflow
      then ret = concat (leading_chunks (blocking_read h))
      else ret \<in> set error_messages)"
  by (auto simp: exports_pack_name_api_send_def send_request_def process_response_def
      Let_def workflow_def in_error_messages
      split: if_splits option.splits sum.splits
      dest!: await_response_result read_body_result)

subsection \<open>The calls a run makes\<close>

lemma steps_append [simp]: "steps (xs @ ys) = steps xs @ steps ys"
  by (induction xs rule: steps.induct) (auto split: option.splits)

lemma remdups_adj_replicate_head [simp]:
  "remdups_adj (k # replicate m k @ zs) = remdups_adj (k # zs)"
  by (induction m) auto

lemma remdups_adj_replicate_single [simp]:
  "remdups_adj (k # replicate m k) = [k]"
  using remdups_adj_replicate_head [of k m "[]"] by simp

lemma all_same_replicate:
  "xs \<noteq> [] \<Longrightarrow> set xs \<subseteq> {k} \<Longrightarrow> \<exists>m. xs = replicate (Suc m) k"
proof -
  assume ne: "xs \<noteq> []" and sub: "set xs \<subseteq> {k}"
  then obtain n where "length xs = Suc n" by (cases xs) auto
  moreover from sub have "replicate (length xs) k = xs"
    by (intro replicate_length_same) auto
  ultimately have "xs = replicate (Suc n) k" by metis
  then show ?thesis ..
qed

lemma await_response_calls_aux:
  "await_response rs n s = Some (r, s') \<Longrightarrow>
     \<exists>evs. s' = s\<lparr>calls := calls s @ evs\<rparr> \<and> steps evs \<noteq> [] \<and> set (steps evs) \<subseteq> {Poll_loop}"
proof (induction rs arbitrary: n s)
  case Nil
  then show ?case by simp
next
  case (Cons a rs)
  show ?case
  proof (cases a)
    case No_result_yet
    define s1 where "s1 = drop_own (Pollable n) (host_call Poll []
      (host_call Future_incoming_response_subscribe [Pollable n]
        (host_call Future_incoming_response_get [] s)))"
    from Cons.prems No_result_yet have "await_response rs (Suc n) s1 = Some (r, s')"
      by (simp add: Let_def s1_def)
    from Cons.IH [OF this] obtain evs where
      evs: "s' = s1\<lparr>calls := calls s1 @ evs\<rparr>" "steps evs \<noteq> []" "set (steps evs) \<subseteq> {Poll_loop}"
      by blast
    let ?pre = "[(Future_incoming_response_get, []),
      (Future_incoming_response_subscribe, [Pollable n]), (Poll, []),
      (Drop_own (Pollable n), [])]"
    have "s' = s\<lparr>calls := calls s @ (?pre @ evs)\<rparr>"
      by (simp add: evs(1) s1_def host_call_def drop_own_def)
    moreover have "steps (?pre @ evs) \<noteq> []" "set (steps (?pre @ evs)) \<subseteq> {Poll_loop}"
      using evs(2,3) by simp_all
    ultimately show ?thesis by blast
  next
    case Got_response
    with Cons.prems have "s' = s\<lparr>calls := calls s @ [(Future_incoming_response_get, [Response])]\<rparr>"
      by (auto simp: host_call_def)
    moreover have "steps [(Future_incoming_response_get, [Response])] = [Poll_loop]" by simp
    ultimately show ?thesis by (metis list.distinct(1) list.set(1,2) subset_refl)
  next
    case Got_error_code
    with Cons.prems have "s' = s\<lparr>calls := calls s @ [(Future_incoming_response_get, []), (Drop_own Future_response, [])]\<rparr>"
      by (auto simp: host_call_def drop_own_def)
    moreover have "steps [(Future_incoming_response_get, []), (Drop_own Future_response, [])] = [Poll_loop]" by simp
    ultimately show ?thesis by (metis list.distinct(1) list.set(1,2) subset_refl)
  next
    case Got_error
    with Cons.prems have "s' = s\<lparr>calls := calls s @ [(Future_incoming_response_get, []), (Drop_own Future_response, [])]\<rparr>"
      by (auto simp: host_call_def drop_own_def)
    moreover have "steps [(Future_incoming_response_get, []), (Drop_own Future_response, [])] = [Poll_loop]" by simp
    ultimately show ?thesis by (metis list.distinct(1) list.set(1,2) subset_refl)
  qed
qed

lemma await_response_calls:
  "await_response rs n s = Some (r, s') \<Longrightarrow>
     \<exists>evs m. s' = s\<lparr>calls := calls s @ evs\<rparr> \<and> steps evs = replicate (Suc m) Poll_loop"
  using await_response_calls_aux all_same_replicate by meson


lemma read_body_calls_aux:
  "read_body closed rs full_body s = Some (r, s') \<Longrightarrow>
     \<exists>evs. s' = s\<lparr>calls := calls s @ evs\<rparr> \<and> steps evs \<noteq> [] \<and> set (steps evs) \<subseteq> {Stream_body}"
proof (induction rs arbitrary: full_body s)
  case Nil
  then show ?case by simp
next
  case (Cons a rs)
  show ?case
  proof (cases a)
    case (Read_chunk chunk)
    define s1 where "s1 = host_call Blocking_read [] s"
    from Cons.prems Read_chunk have "read_body closed rs (full_body @ chunk) s1 = Some (r, s')"
      by (simp add: s1_def)
    from Cons.IH [OF this] obtain evs where
      evs: "s' = s1\<lparr>calls := calls s1 @ evs\<rparr>" "steps evs \<noteq> []" "set (steps evs) \<subseteq> {Stream_body}"
      by blast
    have "s' = s\<lparr>calls := calls s @ ((Blocking_read, []) # evs)\<rparr>"
      by (simp add: evs(1) s1_def host_call_def)
    moreover have "steps ((Blocking_read, []) # evs) \<noteq> []"
      "set (steps ((Blocking_read, []) # evs)) \<subseteq> {Stream_body}"
      using evs(2,3) by simp_all
    ultimately show ?thesis by blast
  next
    case (Read_error tag)
    show ?thesis
    proof (cases "tag = closed")
      case True
      with Cons.prems Read_error have "s' = s\<lparr>calls := calls s @ [(Blocking_read, [])]\<rparr>"
        by (auto simp: host_call_def Let_def)
      moreover have "steps [(Blocking_read, [])] = [Stream_body]" by simp
      ultimately show ?thesis by (metis list.distinct(1) list.set(1,2) subset_refl)
    next
      case False
      let ?evs = "[(Blocking_read, []), (Drop_own Incoming_body_stream, []),
        (Drop_own Incoming_body, []), (Drop_own Response, [])]"
      from False Cons.prems Read_error have "s' = s\<lparr>calls := calls s @ ?evs\<rparr>"
        by (auto simp: host_call_def drop_own_def Let_def)
      moreover have "steps ?evs = [Stream_body]" by simp
      ultimately show ?thesis by (metis list.distinct(1) list.set(1,2) subset_refl)
    qed
  qed
qed

lemma read_body_calls:
  "read_body closed rs full_body s = Some (r, s') \<Longrightarrow>
     \<exists>evs m. s' = s\<lparr>calls := calls s @ evs\<rparr> \<and> steps evs = replicate (Suc m) Stream_body"
  using read_body_calls_aux all_same_replicate by meson

lemma host_call_appended: "host_call c r s = appended s [(c, r)]"
  by (simp add: host_call_def appended_def)

lemma drop_own_appended: "drop_own x s = appended s [(Drop_own x, [])]"
  by (simp add: drop_own_def host_call_appended)

lemma appended_appended [simp]: "appended (appended s xs) ys = appended s (xs @ ys)"
  by (simp add: appended_def)

lemma appended_eq_iff [simp]: "appended s xs = appended s ys \<longleftrightarrow> xs = ys"
proof
  assume "appended s xs = appended s ys"
  then have "calls (appended s xs) = calls (appended s ys)" by simp
  then show "xs = ys" by (simp add: appended_def)
qed simp

lemma await_response_appended:
  "await_response rs n s = Some (r, s') \<Longrightarrow>
     \<exists>evs m. s' = appended s evs \<and> steps evs = replicate (Suc m) Poll_loop
       \<and> (case r of Inr _ \<Rightarrow> first_result rs = Some Got_response
          | Inl msg \<Rightarrow> msg \<in> set error_messages \<and> first_result rs \<noteq> Some Got_response)"
  using await_response_calls [of rs n s r s'] await_response_result [of rs n s r s']
  unfolding appended_def by blast

lemma read_body_appended:
  "read_body closed rs full_body s = Some (r, s') \<Longrightarrow>
     \<exists>evs m. s' = appended s evs \<and> steps evs = replicate (Suc m) Stream_body
       \<and> (case r of
        Inr body \<Rightarrow> first_error rs = Some closed \<and> body = full_body @ concat (leading_chunks rs)
      | Inl msg \<Rightarrow> msg = ''Failed to read from body stream'' \<and> first_error rs \<noteq> Some closed)"
  using read_body_calls [of closed rs full_body s r s'] read_body_result [of closed rs full_body s r s']
  unfolding appended_def by blast

lemma send_steps:
  "exports_pack_name_api_send h closed s = Some (ret, s') \<Longrightarrow>
     \<exists>evs. s' = appended s evs \<and> remdups_adj (steps evs) = steps_performed h closed"
  by (auto simp: exports_pack_name_api_send_def send_request_def process_response_def
      Let_def host_call_appended drop_own_appended
      on_success_def steps_performed_def workflow_def
      split: if_splits option.splits sum.splits
      dest!: await_response_appended read_body_appended)


subsection \<open>Ownership of the handles\<close>

lemma acquired_append [simp]: "acquired (xs @ ys) = acquired xs @ acquired ys"
  by (simp add: acquired_def)

lemma released_append [simp]: "released (xs @ ys) = released xs @ released ys"
  by (simp add: released_def)

lemma acquired_Cons [simp]: "acquired ((c, r) # l) = r @ acquired l"
  by (simp add: acquired_def)

lemma released_Cons [simp]: "released ((c, r) # l) = given c @ released l"
  by (simp add: released_def)

lemma acquired_Nil [simp]: "acquired [] = []"
  by (simp add: acquired_def)

lemma released_Nil [simp]: "released [] = []"
  by (simp add: released_def)

lemma await_response_handles:
  "await_response rs n s = Some (r, s') \<Longrightarrow>
     \<exists>evs. s' = appended s evs
       \<and> (case r of
            Inl msg \<Rightarrow> mset (released evs) = add_mset Future_response (mset (acquired evs))
                 \<and> first_result rs \<noteq> Some Got_response
          | Inr _ \<Rightarrow> mset (acquired evs) = add_mset Response (mset (released evs))
                 \<and> first_result rs = Some Got_response)"
proof (induction rs arbitrary: n s)
  case Nil
  then show ?case by simp
next
  case (Cons a rs)
  show ?case
  proof (cases a)
    case No_result_yet
    define s1 where "s1 = drop_own (Pollable n) (host_call Poll []
      (host_call Future_incoming_response_subscribe [Pollable n]
        (host_call Future_incoming_response_get [] s)))"
    from Cons.prems No_result_yet have "await_response rs (Suc n) s1 = Some (r, s')"
      by (simp add: Let_def s1_def)
    from Cons.IH [OF this] obtain evs where
      evs: "s' = appended s1 evs"
        "case r of
            Inl msg \<Rightarrow> mset (released evs) = add_mset Future_response (mset (acquired evs))
                 \<and> first_result rs \<noteq> Some Got_response
          | Inr _ \<Rightarrow> mset (acquired evs) = add_mset Response (mset (released evs))
                 \<and> first_result rs = Some Got_response"
      by blast
    let ?pre = "[(Future_incoming_response_get, []),
      (Future_incoming_response_subscribe, [Pollable n]), (Poll, []),
      (Drop_own (Pollable n), [])]"
    have "s' = appended s (?pre @ evs)"
      by (simp add: evs(1) s1_def host_call_appended drop_own_appended)
    moreover have "case r of
            Inl msg \<Rightarrow> mset (released (?pre @ evs))
                   = add_mset Future_response (mset (acquired (?pre @ evs)))
                 \<and> first_result (a # rs) \<noteq> Some Got_response
          | Inr _ \<Rightarrow> mset (acquired (?pre @ evs)) = add_mset Response (mset (released (?pre @ evs)))
                 \<and> first_result (a # rs) = Some Got_response"
      using evs(2) No_result_yet by (simp split: sum.splits)
    ultimately show ?thesis by blast
  next
    case Got_response
    with Cons.prems have "s' = appended s [(Future_incoming_response_get, [Response])]" "r = Inr ()"
      by (auto simp: host_call_appended)
    then show ?thesis using Got_response
      by (intro exI [of _ "[(Future_incoming_response_get, [Response])]"]) simp
  next
    case Got_error_code
    with Cons.prems have "s' = appended s [(Future_incoming_response_get, []), (Drop_own Future_response, [])]"
      "r = Inl ''Returned with error code''"
      by (auto simp: host_call_appended drop_own_appended)
    then show ?thesis using Got_error_code
      by (intro exI [of _ "[(Future_incoming_response_get, []), (Drop_own Future_response, [])]"]) simp
  next
    case Got_error
    with Cons.prems have "s' = appended s [(Future_incoming_response_get, []), (Drop_own Future_response, [])]"
      "r = Inl ''Returned with error''"
      by (auto simp: host_call_appended drop_own_appended)
    then show ?thesis using Got_error
      by (intro exI [of _ "[(Future_incoming_response_get, []), (Drop_own Future_response, [])]"]) simp
  qed
qed

lemma read_body_handles:
  "read_body closed rs full_body s = Some (r, s') \<Longrightarrow>
     \<exists>evs. s' = appended s evs \<and> acquired evs = []
       \<and> released evs = (case r of Inl msg \<Rightarrow> [Incoming_body_stream, Incoming_body, Response]
                           | Inr _ \<Rightarrow> [])"
proof (induction rs arbitrary: full_body s)
  case Nil
  then show ?case by simp
next
  case (Cons a rs)
  show ?case
  proof (cases a)
    case (Read_chunk chunk)
    define s1 where "s1 = host_call Blocking_read [] s"
    from Cons.prems Read_chunk have "read_body closed rs (full_body @ chunk) s1 = Some (r, s')"
      by (simp add: s1_def)
    from Cons.IH [OF this] obtain evs where
      evs: "s' = appended s1 evs" "acquired evs = []"
        "released evs = (case r of Inl msg \<Rightarrow> [Incoming_body_stream, Incoming_body, Response]
                           | Inr _ \<Rightarrow> [])"
      by blast
    have "s' = appended s ((Blocking_read, []) # evs)"
      by (simp add: evs(1) s1_def host_call_appended)
    moreover have "acquired ((Blocking_read, []) # evs) = []"
      "released ((Blocking_read, []) # evs) =
         (case r of Inl msg \<Rightarrow> [Incoming_body_stream, Incoming_body, Response] | Inr _ \<Rightarrow> [])"
      using evs(2,3) by simp_all
    ultimately show ?thesis by blast
  next
    case (Read_error tag)
    show ?thesis
    proof (cases "tag = closed")
      case True
      with Cons.prems Read_error have "s' = appended s [(Blocking_read, [])]" "r = Inr full_body"
        by (auto simp: host_call_appended Let_def)
      then show ?thesis
        by (intro exI [of _ "[(Blocking_read, [])]"]) simp
    next
      case False
      let ?evs = "[(Blocking_read, []), (Drop_own Incoming_body_stream, []),
        (Drop_own Incoming_body, []), (Drop_own Response, [])]"
      from False Cons.prems Read_error have "s' = appended s ?evs"
        "r = Inl ''Failed to read from body stream''"
        by (auto simp: host_call_appended drop_own_appended Let_def)
      then show ?thesis
        by (intro exI [of _ ?evs]) simp
    qed
  qed
qed

text \<open>
  The balance of ownership over a whole run: what \<^verbatim>\<open>send\<close> has acquired is what it
  has given up, plus \<^verbatim>\<open>future_response\<close> in the runs whose poll loop ends with a
  response.
\<close>

lemma send_handles:
  "exports_pack_name_api_send h closed s = Some (ret, s') \<Longrightarrow>
     \<exists>evs. s' = appended s evs
       \<and> mset (acquired evs) =
           mset (released evs)
           + (if list_all (step_succeeds h closed) (take 11 workflow)
              then {#Future_response#} else {#})"
  by (auto simp: exports_pack_name_api_send_def send_request_def process_response_def
      Let_def host_call_appended drop_own_appended on_success_def workflow_def
      split: if_splits option.splits sum.splits
      dest!: await_response_handles read_body_handles)

subsection \<open>The response-body loop on a given script\<close>

lemma read_body_script:
  "read_body closed (map Read_chunk chunks @ Read_error tag # rest) full_body s =
     Some (if tag = closed
       then (Inr (full_body @ concat chunks),
             s\<lparr>calls := calls s @ replicate (Suc (length chunks)) (Blocking_read, [])\<rparr>)
       else (Inl ''Failed to read from body stream'',
             s\<lparr>calls := calls s @ replicate (Suc (length chunks)) (Blocking_read, [])
                @ [(Drop_own Incoming_body_stream, []), (Drop_own Incoming_body, []),
                   (Drop_own Response, [])]\<rparr>))"
proof (induction chunks arbitrary: full_body s)
  case Nil
  show ?case by (simp add: Let_def host_call_def drop_own_def)
next
  case (Cons c chunks)
  show ?case
    by (simp add: Cons.IH host_call_def replicate_app_Cons_same)
qed

lemma await_response_Got_response:
  assumes "first_result rs = Some Got_response"
  shows "\<exists>s'. await_response rs n s = Some (Inr (), s')"
proof -
  from assms have "first_result rs \<noteq> None" by simp
  from await_response_returns [OF this] obtain r s' where
    r: "await_response rs n s = Some (r, s')" by blast
  from await_response_result [OF r] assms have "r = Inr ()"
    by (cases r) simp_all
  with r show ?thesis by blast
qed

lemma send_reaches_read_loop:
  assumes "list_all (step_succeeds h closed) (butlast workflow)"
    and "incoming_response_consume h" and "incoming_body_stream h"
  shows "\<exists>s1. exports_pack_name_api_send h closed s =
     (case read_body closed (blocking_read h) [] s1 of
             None \<Rightarrow> None
           | Some (Inl msg, s) \<Rightarrow> Some (msg, s)
           | Some (Inr full_body, s) \<Rightarrow>
               Some (full_body,
                 drop_own Response (drop_own Incoming_body (drop_own Incoming_body_stream s))))"
proof -
  from assms(1) have flags: "fields_from_list h" "set_method h" "set_path_with_query h"
    "set_scheme h" "set_authority h" "outgoing_request_body h" "outgoing_body_write h"
    "blocking_write_and_flush h" "outgoing_body_finish h" "set_connect_timeout h"
    "set_first_byte_timeout h" "set_between_bytes_timeout h" "outgoing_handler_handle h"
    and got: "first_result (future_incoming_response_get h) = Some Got_response"
    by (simp_all add: workflow_def)
  define s0 where "s0 = host_call Outgoing_handler_handle [Future_response]
    (host_call Set_between_bytes_timeout [] (host_call Set_first_byte_timeout []
    (host_call Set_connect_timeout [] (host_call Constructor_request_options [Request_options]
    (host_call Outgoing_body_finish [] (drop_own Out_body_stream
    (host_call (Blocking_write_and_flush (body_data (total s))) []
    (host_call Outgoing_body_write [Out_body_stream]
    (host_call Outgoing_request_body [Out_body] (host_call Set_authority []
    (host_call Set_scheme [] (host_call Set_path_with_query [] (host_call Set_method []
    (host_call Constructor_outgoing_request [Request]
    (host_call Fields_from_list [Headers] s)))))))))))))))"
  from await_response_Got_response [OF got] obtain s1 where
    s1: "await_response (future_incoming_response_get h) 0 s0 = Some (Inr (), s1)" by blast
  have "exports_pack_name_api_send h closed s = process_response h closed s1"
    using flags s1
    by (simp add: exports_pack_name_api_send_def send_request_def Let_def on_success_def
        s0_def total_host_call total_drop_own)
  then show ?thesis
    using assms(2,3) by (auto simp: process_response_def Let_def)
qed

subsection \<open>The claims about \<^verbatim>\<open>send\<close>\<close>


text \<open>
  C8. The exports other than \<open>add\<close> leave \<^verbatim>\<open>total\<close> unchanged. \<open>get()\<close> returns the
  state it was called in, so a second \<open>get()\<close> returns the same value; and whenever
  \<open>send()\<close> returns, \<^verbatim>\<open>total\<close> (hence the result of a following \<open>get()\<close>) is
  what it was before the call.
\<close>

theorem get_and_send_preserve_total:
  "snd (exports_pack_name_api_get s) = s
   \<and> total (snd (exports_pack_name_api_get s)) = total s
   \<and> fst (exports_pack_name_api_get (snd (exports_pack_name_api_get s)))
       = fst (exports_pack_name_api_get s)
   \<and> (exports_pack_name_api_send h closed s = Some (ret, s') \<longrightarrow>
        total s' = total s
        \<and> fst (exports_pack_name_api_get s') = fst (exports_pack_name_api_get s))"
  by (auto simp: exports_pack_name_api_get_def dest: send_total)

theorem get_and_send_preserve_total_witness:
  "exports_pack_name_api_send (cooperative_host [Got_error_code] []) 1
       \<lparr>total = 41, calls = []\<rparr>
     = Some (''Returned with error code'',
         \<lparr>total = 41,
          calls =
            [(Fields_from_list, [Headers]), (Constructor_outgoing_request, [Request]),
             (Set_method, []), (Set_path_with_query, []), (Set_scheme, []),
             (Set_authority, []), (Outgoing_request_body, [Out_body]),
             (Outgoing_body_write, [Out_body_stream]),
             (Blocking_write_and_flush ''{ \"count\": 41 }'', []),
             (Drop_own Out_body_stream, []), (Outgoing_body_finish, []),
             (Constructor_request_options, [Request_options]),
             (Set_connect_timeout, []), (Set_first_byte_timeout, []),
             (Set_between_bytes_timeout, []),
             (Outgoing_handler_handle, [Future_response]),
             (Future_incoming_response_get, []), (Drop_own Future_response, [])]\<rparr>)
   \<and> fst (exports_pack_name_api_get \<lparr>total = 41, calls = []\<rparr>) = 41"
proof -
  let ?s = "\<lparr>total = 41, calls = []\<rparr>"
  let ?s' = "\<lparr>total = 41,
          calls =
            [(Fields_from_list, [Headers]), (Constructor_outgoing_request, [Request]),
             (Set_method, []), (Set_path_with_query, []), (Set_scheme, []),
             (Set_authority, []), (Outgoing_request_body, [Out_body]),
             (Outgoing_body_write, [Out_body_stream]),
             (Blocking_write_and_flush ''{ \"count\": 41 }'', []),
             (Drop_own Out_body_stream, []), (Outgoing_body_finish, []),
             (Constructor_request_options, [Request_options]),
             (Set_connect_timeout, []), (Set_first_byte_timeout, []),
             (Set_between_bytes_timeout, []),
             (Outgoing_handler_handle, [Future_response]),
             (Future_incoming_response_get, []), (Drop_own Future_response, [])]\<rparr>"
  have run: "exports_pack_name_api_send (cooperative_host [Got_error_code] []) 1 ?s
      = Some (''Returned with error code'', ?s')"
    by (simp add: exports_pack_name_api_send_def send_request_def cooperative_host_def
        host_call_def drop_own_def on_success_def body_data_def decimal.simps)
  from get_and_send_preserve_total
    [of ?s "cooperative_host [Got_error_code] []" 1 "''Returned with error code''" ?s'] run
  show ?thesis by (simp add: exports_pack_name_api_get_def)
qed

text \<open>
  C4, as stated, fails: \<open>send()\<close> does not always return. On a host that answers every
  poll with "no result yet", and on a host that delivers a response whose body stream
  yields chunks and no error, \<open>send()\<close> is still in its loop when the host's script ends
  (for scripts of every length: \<open>send_polls_while_no_result\<close>,
  \<open>send_reads_while_chunks\<close>).
\<close>

theorem send_does_not_always_return:
  "exports_pack_name_api_send
       (cooperative_host [No_result_yet, No_result_yet, No_result_yet] []) 1 (http_instance 7)
     = None
   \<and> exports_pack_name_api_send
       (cooperative_host [Got_response] [Read_chunk ''a'', Read_chunk ''b'', Read_chunk ''c''])
       1 (http_instance 7)
     = None"
  by (simp add: exports_pack_name_api_send_def send_request_def process_response_def
      cooperative_host_def Let_def)

text \<open>
  C4, amended. \<open>send()\<close> fails to return in exactly two cases: every step up to the
  dispatch succeeds and the host never answers the poll with a result, or the host
  delivers a response whose body and stream are obtained and the stream never reports an
  error. In particular \<open>send()\<close> returns on every host that eventually answers the poll
  with a result and eventually ends the body stream with an error. Whenever \<open>send()\<close>
  returns, the string it leaves in \<^verbatim>\<open>*ret\<close> is one of two things: if every step
  succeeded (the body stream ending with the error tag \<^verbatim>\<open>closed\<close>), the concatenation,
  in read order, of the chunks read before the stream reported \<^verbatim>\<open>closed\<close>; otherwise
  one of the error messages.
\<close>

theorem send_returns_body_or_error_message:
  "(exports_pack_name_api_send h closed s = None \<longleftrightarrow>
      list_all (step_succeeds h closed) (take 10 workflow)
      \<and> (first_result (future_incoming_response_get h) = None
         \<or> first_result (future_incoming_response_get h) = Some Got_response
           \<and> incoming_response_consume h \<and> incoming_body_stream h
           \<and> first_error (blocking_read h) = None))
   \<and> (first_result (future_incoming_response_get h) \<noteq> None
      \<and> first_error (blocking_read h) \<noteq> None \<longrightarrow>
      (\<exists>ret s'. exports_pack_name_api_send h closed s = Some (ret, s')))
   \<and> (map_option fst (exports_pack_name_api_send h closed s) = Some ret \<longrightarrow>
        (if list_all (step_succeeds h closed) workflow
         then ret = concat (leading_chunks (blocking_read h))
         else ret \<in> set error_messages))"
proof (intro conjI impI)
  show "exports_pack_name_api_send h closed s = None \<longleftrightarrow>
      list_all (step_succeeds h closed) (take 10 workflow)
      \<and> (first_result (future_incoming_response_get h) = None
         \<or> first_result (future_incoming_response_get h) = Some Got_response
           \<and> incoming_response_consume h \<and> incoming_body_stream h
           \<and> first_error (blocking_read h) = None)"
    by (rule send_None_iff)
next
  assume "first_result (future_incoming_response_get h) \<noteq> None
      \<and> first_error (blocking_read h) \<noteq> None"
  then show "\<exists>ret s'. exports_pack_name_api_send h closed s = Some (ret, s')"
    by (simp add: send_returns)
next
  assume "map_option fst (exports_pack_name_api_send h closed s) = Some ret"
  then obtain s' where "exports_pack_name_api_send h closed s = Some (ret, s')"
    by auto
  then show "if list_all (step_succeeds h closed) workflow
         then ret = concat (leading_chunks (blocking_read h))
         else ret \<in> set error_messages"
    by (rule send_outcome)
qed

theorem send_returns_body_or_error_message_witness:
  "first_result [No_result_yet, Got_response] \<noteq> None
   \<and> first_error [Read_chunk ''hello '', Read_chunk ''world'', Read_error 1] \<noteq> None
   \<and> map_option fst (exports_pack_name_api_send
        (cooperative_host [No_result_yet, Got_response]
           [Read_chunk ''hello '', Read_chunk ''world'', Read_error 1])
        1 (http_instance 7)) = Some ''hello world''
   \<and> list_all (step_succeeds
        (cooperative_host [No_result_yet, Got_response]
           [Read_chunk ''hello '', Read_chunk ''world'', Read_error 1]) 1) workflow
   \<and> ''hello world'' = concat (leading_chunks
        [Read_chunk ''hello '', Read_chunk ''world'', Read_error 1])"
proof -
  let ?h = "cooperative_host [No_result_yet, Got_response]
           [Read_chunk ''hello '', Read_chunk ''world'', Read_error 1]"
  have run: "map_option fst (exports_pack_name_api_send ?h 1 (http_instance 7))
      = Some ''hello world''"
    by (simp add: exports_pack_name_api_send_def send_request_def process_response_def
        cooperative_host_def http_instance_def host_call_def drop_own_def on_success_def)
  have ok: "list_all (step_succeeds ?h 1) workflow"
    by (simp add: workflow_def cooperative_host_def)
  from send_returns_body_or_error_message
    [of ?h 1 "http_instance 7" "''hello world''"] run ok
  show ?thesis by (simp add: cooperative_host_def)
qed

text \<open>
  C5. The steps of a run of \<open>send()\<close>, read off the log of its calls with repeated calls
  of one step merged, are exactly the workflow in the specification's order, from its
  first step up to and including the first step that does not succeed: no step is
  skipped, none is performed out of order, and none is performed after a failed one.
\<close>

theorem send_follows_workflow:
  "exports_pack_name_api_send h closed (http_instance t) = Some (ret, s') \<Longrightarrow>
     remdups_adj (steps (calls s')) = steps_performed h closed"
proof -
  assume "exports_pack_name_api_send h closed (http_instance t) = Some (ret, s')"
  from send_steps [OF this] obtain evs where
    "s' = appended (http_instance t) evs"
    "remdups_adj (steps evs) = steps_performed h closed"
    by blast
  then show ?thesis by (simp add: appended_def http_instance_def)
qed

theorem send_follows_workflow_witness:
  "exports_pack_name_api_send
       (cooperative_host [No_result_yet, Got_response]
          [Read_chunk ''hello '', Read_chunk ''world'', Read_error 1])
       1 (http_instance 7)
     = Some (''hello world'',
         \<lparr>total = 7,
          calls =
            [(Fields_from_list, [Headers]), (Constructor_outgoing_request, [Request]),
             (Set_method, []), (Set_path_with_query, []), (Set_scheme, []),
             (Set_authority, []), (Outgoing_request_body, [Out_body]),
             (Outgoing_body_write, [Out_body_stream]),
             (Blocking_write_and_flush ''{ \"count\": 7 }'', []),
             (Drop_own Out_body_stream, []), (Outgoing_body_finish, []),
             (Constructor_request_options, [Request_options]),
             (Set_connect_timeout, []), (Set_first_byte_timeout, []),
             (Set_between_bytes_timeout, []),
             (Outgoing_handler_handle, [Future_response]),
             (Future_incoming_response_get, []),
             (Future_incoming_response_subscribe, [Pollable 0]), (Poll, []),
             (Drop_own (Pollable 0), []),
             (Future_incoming_response_get, [Response]),
             (Incoming_response_status, []),
             (Incoming_response_consume, [Incoming_body]),
             (Incoming_body_stream_of, [Incoming_body_stream]),
             (Blocking_read, []), (Blocking_read, []), (Blocking_read, []),
             (Drop_own Incoming_body_stream, []), (Drop_own Incoming_body, []),
             (Drop_own Response, [])]\<rparr>)
   \<and> steps_performed
        (cooperative_host [No_result_yet, Got_response]
          [Read_chunk ''hello '', Read_chunk ''world'', Read_error 1]) 1
       = [Construct_request, Set_the_method, Set_the_path, Set_the_scheme,
          Set_the_authority, Open_body_stream, Write_body, Finish_body, Set_timeouts,
          Dispatch, Poll_loop, Read_status, Stream_body]"
proof -
  let ?h = "cooperative_host [No_result_yet, Got_response]
          [Read_chunk ''hello '', Read_chunk ''world'', Read_error 1]"
  let ?s' = "\<lparr>total = 7,
          calls =
            [(Fields_from_list, [Headers]), (Constructor_outgoing_request, [Request]),
             (Set_method, []), (Set_path_with_query, []), (Set_scheme, []),
             (Set_authority, []), (Outgoing_request_body, [Out_body]),
             (Outgoing_body_write, [Out_body_stream]),
             (Blocking_write_and_flush ''{ \"count\": 7 }'', []),
             (Drop_own Out_body_stream, []), (Outgoing_body_finish, []),
             (Constructor_request_options, [Request_options]),
             (Set_connect_timeout, []), (Set_first_byte_timeout, []),
             (Set_between_bytes_timeout, []),
             (Outgoing_handler_handle, [Future_response]),
             (Future_incoming_response_get, []),
             (Future_incoming_response_subscribe, [Pollable 0]), (Poll, []),
             (Drop_own (Pollable 0), []),
             (Future_incoming_response_get, [Response]),
             (Incoming_response_status, []),
             (Incoming_response_consume, [Incoming_body]),
             (Incoming_body_stream_of, [Incoming_body_stream]),
             (Blocking_read, []), (Blocking_read, []), (Blocking_read, []),
             (Drop_own Incoming_body_stream, []), (Drop_own Incoming_body, []),
             (Drop_own Response, [])]\<rparr>"
  have run: "exports_pack_name_api_send ?h 1 (http_instance 7) = Some (''hello world'', ?s')"
    by (simp add: exports_pack_name_api_send_def send_request_def process_response_def
        cooperative_host_def http_instance_def host_call_def drop_own_def on_success_def
        body_data_def decimal.simps)
  from send_follows_workflow [OF run] run
  show ?thesis by simp
qed

text \<open>
  C3. In the response-body loop, on a host whose \<^verbatim>\<open>blocking_read\<close> delivers the chunks
  \<open>chunks\<close> and then fails with the tag \<open>tag\<close>: if \<open>tag\<close> is \<^verbatim>\<open>closed\<close> the loop ends
  with the accumulated body, and \<open>send()\<close> returns the concatenation of the chunks; for
  every other tag the loop stops reading, the stream, the body and the response are
  dropped, and \<open>send()\<close> returns the message \<^verbatim>\<open>Failed to read from body stream\<close>. In
  both cases exactly one read follows the last chunk.
\<close>

theorem read_loop_closed_is_eof:
  assumes "blocking_read h = map Read_chunk chunks @ Read_error tag # rest"
    and "list_all (step_succeeds h closed) (butlast workflow)"
    and "incoming_response_consume h" and "incoming_body_stream h"
  shows "read_body closed (blocking_read h) full_body s1 =
     Some (if tag = closed
       then (Inr (full_body @ concat chunks),
             s1\<lparr>calls := calls s1 @ replicate (Suc (length chunks)) (Blocking_read, [])\<rparr>)
       else (Inl ''Failed to read from body stream'',
             s1\<lparr>calls := calls s1 @ replicate (Suc (length chunks)) (Blocking_read, [])
                @ [(Drop_own Incoming_body_stream, []), (Drop_own Incoming_body, []),
                   (Drop_own Response, [])]\<rparr>))
    \<and> map_option fst (exports_pack_name_api_send h closed s) =
       Some (if tag = closed then concat chunks else ''Failed to read from body stream'')"
proof -
  from send_reaches_read_loop [OF assms(2,3,4)] obtain s2 where
    "exports_pack_name_api_send h closed s =
     (case read_body closed (blocking_read h) [] s2 of
             None \<Rightarrow> None
           | Some (Inl msg, s) \<Rightarrow> Some (msg, s)
           | Some (Inr full_body, s) \<Rightarrow>
               Some (full_body,
                 drop_own Response (drop_own Incoming_body (drop_own Incoming_body_stream s))))"
    by blast
  then have "map_option fst (exports_pack_name_api_send h closed s) =
       Some (if tag = closed then concat chunks else ''Failed to read from body stream'')"
    by (simp add: assms(1) read_body_script)
  then show ?thesis
    by (simp add: assms(1) read_body_script)
qed

theorem read_loop_closed_is_eof_witness:
  "map_option fst (exports_pack_name_api_send
      (cooperative_host [Got_response]
         [Read_chunk ''ab'', Read_chunk ''c'', Read_error 1, Read_chunk ''zz''])
      1 (http_instance 5)) = Some ''abc''
   \<and> map_option fst (exports_pack_name_api_send
      (cooperative_host [Got_response]
         [Read_chunk ''ab'', Read_chunk ''c'', Read_error 0, Read_chunk ''zz''])
      1 (http_instance 5)) = Some ''Failed to read from body stream''
   \<and> map_option fst (read_body 1
         [Read_chunk ''ab'', Read_chunk ''c'', Read_error 1, Read_chunk ''zz''] []
         (http_instance 5)) = Some (Inr ''abc'')
   \<and> map_option fst (read_body 1
         [Read_chunk ''ab'', Read_chunk ''c'', Read_error 0, Read_chunk ''zz''] []
         (http_instance 5)) = Some (Inl ''Failed to read from body stream'')"
  using read_loop_closed_is_eof
      [of "cooperative_host [Got_response]
            [Read_chunk ''ab'', Read_chunk ''c'', Read_error 1, Read_chunk ''zz'']"
         "[''ab'', ''c'']" 1 "[Read_chunk ''zz'']" 1 "[]" "http_instance 5" "http_instance 5"]
    read_loop_closed_is_eof
      [of "cooperative_host [Got_response]
            [Read_chunk ''ab'', Read_chunk ''c'', Read_error 0, Read_chunk ''zz'']"
         "[''ab'', ''c'']" 0 "[Read_chunk ''zz'']" 1 "[]" "http_instance 5" "http_instance 5"]
  by (simp add: cooperative_host_def workflow_def)

text \<open>
  C2. The run of \<open>send()\<close> on a host on which every call succeeds, the first poll
  delivers the response and the body stream is closed at once: \<open>send()\<close> returns the
  empty body, the host has returned the own handle \<^verbatim>\<open>future_response\<close> to it once, and
  \<open>send()\<close> has neither dropped it nor passed it on. Each of the other eight handles of
  this run is acquired once and given up once. (By \<open>send_handles\<close> this is so in every
  run whose poll loop ends with a response, and in no other.)
\<close>

theorem send_keeps_future_response:
  "map_option
     (\<lambda>(ret, s'). (ret, acquired (calls s'), released (calls s')))
     (exports_pack_name_api_send (cooperative_host [Got_response] [Read_error closed])
        closed (http_instance t))
   = Some ([],
       [Headers, Request, Out_body, Out_body_stream, Request_options, Future_response,
        Response, Incoming_body, Incoming_body_stream],
       [Headers, Out_body_stream, Out_body, Request, Request_options,
        Incoming_body_stream, Incoming_body, Response])"
  by (simp add: exports_pack_name_api_send_def send_request_def process_response_def
      cooperative_host_def http_instance_def host_call_def drop_own_def on_success_def
      acquired_def released_def)

section \<open>Properties of the test fixtures\<close>

lemma run_loop_all:
  "0 \<le> i \<Longrightarrow> i \<le> 512 \<Longrightarrow> (\<forall>n < 512. malloc_succeeds a n) \<Longrightarrow>
     run_loop a i log = (Inr (), log @ concat (map (iteration a) [i..511]))"
proof (induction "nat (512 - i)" arbitrary: i log)
  case 0
  then have "i = 512" by simp
  then show ?case by (simp add: run_loop.simps [of a 512 log] COUNT_def)
next
  case (Suc k)
  then have lt: "i < 512" and k: "k = nat (512 - (i + 1))" by simp_all
  from lt Suc.prems have ok: "malloc_succeeds a (nat i)" by simp
  from lt have up: "[i..511] = i # [i + 1..511]"
    by (simp add: upto_rec1)
  have next_: "run_loop a (i + 1) log' = (Inr (), log' @ concat (map (iteration a) [i + 1..511]))"
    for log'
    using Suc.hyps(1) [OF k] Suc.prems lt by simp
  show ?case
    by (subst run_loop.simps)
      (simp add: lt ok COUNT_def Let_def malloc_def load_def PAGE_SIZE_def next_ up
        iteration_def [of a i])
qed

text \<open>
  C6, as stated, fails: \<^verbatim>\<open>run\<close> does not check the result of \<^verbatim>\<open>malloc\<close>. With an
  allocator whose third call fails, the third iteration dereferences the null pointer
  and \<^verbatim>\<open>run\<close> does not return 0.
\<close>

theorem run_null_dereference_when_malloc_fails:
  "exports_c_api1_run third_malloc_fails
     = (Inl Null_pointer_dereference,
        iteration third_malloc_fails 0 @ iteration third_malloc_fails 1
        @ [Malloc 1048576 NULL, Load NULL 0])"
  by (simp add: exports_c_api1_run_def run_loop.simps Let_def malloc_def load_def
      PAGE_SIZE_def COUNT_def iteration_def third_malloc_fails_def)

text \<open>
  C6, amended. Provided each of the 512 calls of \<^verbatim>\<open>malloc\<close> succeeds, \<^verbatim>\<open>run\<close>
  performs exactly the 512 iterations \<open>i = 0, ..., 511\<close>, each allocating one block of
  1048576 bytes and reading its first and its last byte, with no null-pointer dereference
  and no out-of-bounds access, and returns 0.
\<close>

theorem run_completes_when_malloc_succeeds:
  "(\<forall>n < 512. malloc_succeeds a n) \<Longrightarrow>
     exports_c_api1_run a = (Inr 0, concat (map (iteration a) [0..511]))
     \<and> length (snd (exports_c_api1_run a)) = 3072"
proof -
  assume ok: "\<forall>n < 512. malloc_succeeds a n"
  have run: "exports_c_api1_run a = (Inr 0, concat (map (iteration a) [0..511]))"
    using run_loop_all [of 0 a "[]", OF _ _ ok]
    by (simp add: exports_c_api1_run_def)
  have "length (concat (map (iteration a) [0..511])) = 3072"
    by (simp add: length_concat comp_def iteration_def sum_list_triv)
  with run show ?thesis by simp
qed

theorem run_completes_when_malloc_succeeds_witness:
  "exports_c_api1_run every_malloc_succeeds
     = (Inr 0, concat (map (iteration every_malloc_succeeds) [0..511]))
   \<and> length (snd (exports_c_api1_run every_malloc_succeeds)) = 3072"
proof -
  have ok: "\<forall>n < 512. malloc_succeeds every_malloc_succeeds n"
    by (simp add: every_malloc_succeeds_def)
  show ?thesis
    using run_completes_when_malloc_succeeds [OF ok] .
qed

lemma strncpy_reads:
  "\<exists>r \<le> n. snd (strncpy dst src k n reads) = reads @ [k..<k + r]"
proof (induction n arbitrary: dst k reads)
  case 0
  show ?case by simp
next
  case (Suc n)
  have one: "\<exists>r \<le> Suc n. reads @ [k] = reads @ [k..<k + r]"
    by (rule exI [of _ 1]) simp
  show ?case
  proof (cases dst)
    case None
    with one show ?thesis by simp
  next
    case (Some d)
    show ?thesis
    proof (cases "length d \<le> k \<or> src k = CHR 0x00")
      case True
      with Some one show ?thesis by auto
    next
      case False
      from Suc.IH [of "Some (d[k := src k])" "Suc k" "reads @ [k]"] obtain r where
        r: "r \<le> n" "snd (strncpy (Some (d[k := src k])) src (Suc k) n (reads @ [k]))
          = (reads @ [k]) @ [Suc k..<Suc k + r]"
        by blast
      have "(reads @ [k]) @ [Suc k..<Suc k + r] = reads @ [k..<k + Suc r]"
        by (simp add: upt_rec [of k])
      with r False Some have "Suc r \<le> Suc n"
        "snd (strncpy dst src k (Suc n) reads) = reads @ [k..<k + Suc r]"
        by simp_all
      then show ?thesis by blast
    qed
  qed
qed

lemma strncpy_reads_no_nul:
  "dst = Some d \<Longrightarrow> k + n \<le> length d \<Longrightarrow> (\<forall>j. k \<le> j \<and> j < k + n \<longrightarrow> src j \<noteq> CHR 0x00) \<Longrightarrow>
    snd (strncpy dst src k n reads) = reads @ [k..<k + n]"
proof (induction n arbitrary: dst d k reads)
  case 0
  show ?case by simp
next
  case (Suc n)
  have "snd (strncpy (Some (d[k := src k])) src (Suc k) n (reads @ [k])) = (reads @ [k]) @ [Suc k..<Suc k + n]"
    by (rule Suc.IH [of _ "d[k := src k]"]) (use Suc.prems in auto)
  moreover have "(reads @ [k]) @ [Suc k..<Suc k + n] = reads @ [k..<k + Suc n]"
    by (simp add: upt_rec [of k])
  ultimately show ?case using Suc.prems by simp
qed

lemma print_reads:
  "\<exists>r \<le> unat (len s). snd (exports_c_api1_print env s) = [0..<r]"
proof -
  have nil: "\<exists>r \<le> unat (len s). [] = [0..<r]" by (rule exI [of _ 0]) simp
  show ?thesis
  proof (cases "memset_zero (if malloc_ok env then Some (map (junk env) [0..<unat (len s + 1)]) else None) (unat (len s + 1))")
    case (Inl f)
    with nil show ?thesis by (simp add: exports_c_api1_print_def Let_def)
  next
    case (Inr buf)
    from strncpy_reads [of "unat (len s)" buf "ptr s" 0 "[]"] obtain r where
      r: "r \<le> unat (len s)" "snd (strncpy buf (ptr s) 0 (unat (len s)) []) = [0..<r]"
      by auto
    have "snd (exports_c_api1_print env s) = snd (strncpy buf (ptr s) 0 (unat (len s)) [])"
      by (simp add: exports_c_api1_print_def Let_def Inr split: prod.splits sum.splits option.splits)
    with r show ?thesis by auto
  qed
qed

text \<open>
  C7. For every argument \<open>s\<close> and every environment, the offsets from \<^verbatim>\<open>s->ptr\<close> that
  \<^verbatim>\<open>print\<close> reads are \<open>0, ..., r - 1\<close> for some \<open>r\<close> not above \<^verbatim>\<open>s->len\<close>: at most
  \<^verbatim>\<open>s->len\<close> bytes, none at or past the length. When none of the first \<^verbatim>\<open>s->len\<close>
  bytes is a null character (and the buffer was allocated), exactly the \<^verbatim>\<open>s->len\<close>
  bytes of the string are read.
\<close>

theorem print_reads_within_len:
  "length (snd (exports_c_api1_print env s)) \<le> unat (len s)
   \<and> snd (exports_c_api1_print env s) = [0..<length (snd (exports_c_api1_print env s))]
   \<and> (malloc_ok env \<and> len s + 1 \<noteq> 0 \<and> (\<forall>k < unat (len s). ptr s k \<noteq> CHR 0x00) \<longrightarrow>
        snd (exports_c_api1_print env s) = [0..<unat (len s)])"
proof -
  from print_reads [of s env] obtain r where
    r: "r \<le> unat (len s)" "snd (exports_c_api1_print env s) = [0..<r]" by blast
  have a: "length (snd (exports_c_api1_print env s)) \<le> unat (len s)"
    "snd (exports_c_api1_print env s) = [0..<length (snd (exports_c_api1_print env s))]"
    using r by simp_all
  have b: "snd (exports_c_api1_print env s) = [0..<unat (len s)]"
    if "malloc_ok env" "len s + 1 \<noteq> 0" "\<forall>k < unat (len s). ptr s k \<noteq> CHR 0x00"
  proof -
    from that(2) have "1 + len s \<noteq> 0"
      by (simp add: add.commute)
    then have "unat (1 + len s) = Suc (unat (len s))"
      by (rule unatSuc)
    then have sz: "unat (len s + 1) = Suc (unat (len s))"
      by (simp add: add.commute)
    let ?buf = "Some (replicate (Suc (unat (len s))) (CHR 0x00))"
    have ms: "memset_zero (Some (map (junk env) [0..<Suc (unat (len s))])) (Suc (unat (len s)))
        = Inr ?buf"
      by (simp add: memset_zero_def)
    have "snd (strncpy ?buf (ptr s) 0 (unat (len s)) []) = [] @ [0..<0 + unat (len s)]"
      by (rule strncpy_reads_no_nul [of _ "replicate (Suc (unat (len s))) (CHR 0x00)"])
        (use that(3) in auto)
    moreover have "snd (exports_c_api1_print env s)
        = snd (strncpy ?buf (ptr s) 0 (unat (len s)) [])"
      using that(1) ms
      by (simp add: exports_c_api1_print_def Let_def sz del: upt_Suc replicate_Suc
          split: prod.splits sum.splits option.splits)
    ultimately show ?thesis by simp
  qed
  from a b show ?thesis by blast
qed

theorem print_reads_within_len_witness:
  "exports_c_api1_print \<lparr>malloc_ok = True, junk = (\<lambda>k. CHR ''j''), localtime = Some 126\<rparr>
       \<lparr>ptr = (\<lambda>k. CHR ''x''), len = 3\<rparr>
     = (Inr ''xxx 2026\<newline>'', [0, 1, 2])
   \<and> snd (exports_c_api1_print \<lparr>malloc_ok = True, junk = (\<lambda>k. CHR ''j''), localtime = Some 126\<rparr>
       \<lparr>ptr = (\<lambda>k. CHR ''x''), len = 3\<rparr>) = [0..<unat (3 :: u32)]"
proof -
  have run: "exports_c_api1_print \<lparr>malloc_ok = True, junk = (\<lambda>k. CHR ''j''), localtime = Some 126\<rparr>
       \<lparr>ptr = (\<lambda>k. CHR ''x''), len = 3\<rparr>
     = (Inr ''xxx 2026\<newline>'', [0, 1, 2])"
    by code_simp
  from print_reads_within_len
    [of "\<lparr>malloc_ok = True, junk = (\<lambda>k. CHR ''j''), localtime = Some 126\<rparr>"
        "\<lparr>ptr = (\<lambda>k. CHR ''x''), len = 3\<rparr>"] run
  show ?thesis by simp
qed

end
